(* ===== verification/Prelude.thy ===== *)
theory Prelude imports
  Main
  "HOL-Library.Multiset"
  "HOL-Library.Char_ord"
  "HOL-Library.List_Lexorder"
  "HOL-Library.Product_Lexorder"
  "HOL-Library.Sublist"
begin

text \<open>
  Shared vocabulary of the development: the result type of a Go function that may return an
  error or panic, Go's 64-bit integer bounds, collections of simplification rules, and generic
  lemmas on lists that several components use.
\<close>

section \<open>Results\<close>

text \<open>
  \<open>Ok v\<close> is a normal return with a nil error, \<open>Fail e\<close> a returned error, and \<open>Panic msg\<close> a
  panic with the given message (the wiring mistakes of the package).
\<close>

datatype ('e, 'a) res = Ok 'a | Fail 'e | Panic string

definition is_ok :: "('e, 'a) res \<Rightarrow> bool" where
  "is_ok r = (case r of Ok _ \<Rightarrow> True | _ \<Rightarrow> False)"

definition is_panic :: "('e, 'a) res \<Rightarrow> bool" where
  "is_panic r = (case r of Panic _ \<Rightarrow> True | _ \<Rightarrow> False)"

definition res_bind :: "('e, 'a) res \<Rightarrow> ('a \<Rightarrow> ('e, 'b) res) \<Rightarrow> ('e, 'b) res" where
  "res_bind r f = (case r of Ok a \<Rightarrow> f a | Fail e \<Rightarrow> Fail e | Panic m \<Rightarrow> Panic m)"

named_theorems res_simps \<open>rewriting the result type\<close>

lemma is_ok_simps [simp, res_simps]:
  "is_ok (Ok a)" "\<not> is_ok (Fail e)" "\<not> is_ok (Panic m)"
  by (simp_all add: is_ok_def)

lemma is_panic_simps [simp, res_simps]:
  "\<not> is_panic (Ok a)" "\<not> is_panic (Fail e)" "is_panic (Panic m)"
  by (simp_all add: is_panic_def)

lemma res_bind_simps [simp, res_simps]:
  "res_bind (Ok a) f = f a" "res_bind (Fail e) f = Fail e" "res_bind (Panic m) f = Panic m"
  by (simp_all add: res_bind_def)

lemma res_bind_eq_Ok [res_simps]:
  "res_bind r f = Ok b \<longleftrightarrow> (\<exists>a. r = Ok a \<and> f a = Ok b)"
  by (cases r) auto

lemma res_bind_eq_Fail [res_simps]:
  "res_bind r f = Fail e \<longleftrightarrow> r = Fail e \<or> (\<exists>a. r = Ok a \<and> f a = Fail e)"
  by (cases r) auto

lemma is_panic_bind [res_simps]:
  "is_panic (res_bind r f) \<longleftrightarrow> is_panic r \<or> (\<exists>a. r = Ok a \<and> is_panic (f a))"
  by (cases r) auto

lemma is_ok_iff: "is_ok r \<longleftrightarrow> (\<exists>a. r = Ok a)"
  by (cases r) auto

section \<open>64-bit integers\<close>

text \<open>
  Go's \<open>int\<close> is 64 bits wide on every platform the server targets, as is \<open>int64\<close>. Values are
  HOL integers, and the operations that could leave the range are stated with these bounds.
\<close>

definition max_int :: int where "max_int = 9223372036854775807"

definition min_int :: int where "min_int = -9223372036854775808"

definition int64 :: "int \<Rightarrow> bool" where
  "int64 n \<longleftrightarrow> min_int \<le> n \<and> n \<le> max_int"

lemma max_int_pow: "max_int = 2 ^ 63 - 1"
  by (simp add: max_int_def)

lemma min_int_pow: "min_int = - (2 ^ 63)"
  by (simp add: min_int_def)

section \<open>Lists\<close>

lemma append_take_drop_nth:
  "n < length xs \<Longrightarrow> take n xs @ xs ! n # drop (Suc n) xs = xs"
  by (simp add: id_take_nth_drop [symmetric])

lemma filter_eq_self: "(\<And>x. x \<in> set xs \<Longrightarrow> P x) \<Longrightarrow> filter P xs = xs"
  by (induction xs) auto

lemma perm_distinct_fst:
  assumes "distinct (map fst xs)" "mset xs = mset ys"
  shows "distinct (map fst ys)"
  using assms by (metis mset_eq_imp_distinct_iff mset_map)

lemma distinct_map_of_perm:
  assumes "distinct (map fst xs)" "mset xs = mset ys"
  shows "map_of xs = map_of ys"
  using assms perm_distinct_fst [OF assms]
  by (intro map_of_inject_set [THEN iffD2]) (auto dest: mset_eq_setD)

end
