(* ===== verification/SortFunc.thy ===== *)
theory SortFunc imports Prelude begin

text \<open>
  \<open>slices.SortFunc\<close>: an in-place sort by a comparison function that must be a strict weak
  ordering. The contract is the locale \<open>sort_cmp\<close>; the two clients of the sources (the filters of
  a query and the modules of a router) interpret it on their comparison functions. Go's sort is
  not stable, so what a client relies on has to hold of every sorted permutation: \<open>sort_unique\<close>
  says there is only one when no two elements tie.
\<close>

fun insert_cmp :: "('a \<Rightarrow> 'a \<Rightarrow> int) \<Rightarrow> 'a \<Rightarrow> 'a list \<Rightarrow> 'a list" where
  "insert_cmp cmp x [] = [x]"
| "insert_cmp cmp x (y # ys) = (if cmp x y < 0 then x # y # ys else y # insert_cmp cmp x ys)"

fun sort_into :: "('a \<Rightarrow> 'a \<Rightarrow> int) \<Rightarrow> 'a list \<Rightarrow> 'a list \<Rightarrow> 'a list" where
  "sort_into cmp acc [] = acc"
| "sort_into cmp acc (x # xs) = sort_into cmp (insert_cmp cmp x acc) xs"

definition sort_func :: "('a \<Rightarrow> 'a \<Rightarrow> int) \<Rightarrow> 'a list \<Rightarrow> 'a list" where
  "sort_func cmp xs = sort_into cmp [] xs"

definition sorted_by :: "('a \<Rightarrow> 'a \<Rightarrow> int) \<Rightarrow> 'a list \<Rightarrow> bool" where
  "sorted_by cmp xs = sorted_wrt (\<lambda>a b. cmp a b \<le> 0) xs"

lemma mset_insert_cmp [simp]: "mset (insert_cmp cmp x xs) = add_mset x (mset xs)"
  by (induction xs) auto

lemma mset_sort_into [simp]: "mset (sort_into cmp acc xs) = mset acc + mset xs"
  by (induction xs arbitrary: acc) auto

lemma mset_sort_func [simp]: "mset (sort_func cmp xs) = mset xs"
  by (simp add: sort_func_def)

lemma set_sort_func [simp]: "set (sort_func cmp xs) = set xs"
  by (metis mset_sort_func set_mset_mset)

lemma set_insert_cmp [simp]: "set (insert_cmp cmp x xs) = insert x (set xs)"
  by (metis mset_insert_cmp set_mset_add_mset_insert set_mset_mset)

lemma length_sort_func [simp]: "length (sort_func cmp xs) = length xs"
  by (metis mset_sort_func size_mset)

lemma distinct_sort_func: "distinct (map f (sort_func cmp xs)) = distinct (map f xs)"
  by (metis mset_eq_imp_distinct_iff mset_map mset_sort_func)

lemma distinct_sort_func_iff [simp]: "distinct (sort_func cmp xs) = distinct xs"
  using distinct_sort_func [of id cmp xs] by simp

locale sort_cmp =
  fixes cmp :: "'a \<Rightarrow> 'a \<Rightarrow> int"
  assumes cmp_swap: "cmp a b < 0 \<longleftrightarrow> 0 < cmp b a"
    and cmp_trans: "cmp a b \<le> 0 \<Longrightarrow> cmp b c \<le> 0 \<Longrightarrow> cmp a c \<le> 0"
begin

lemma cmp_total: "cmp a b \<le> 0 \<or> cmp b a \<le> 0"
  using cmp_swap [of b a] by auto

lemma cmp_refl: "cmp a a = 0"
  using cmp_swap [of a a] by auto

lemma cmp_tie: "cmp a b \<le> 0 \<Longrightarrow> cmp b a \<le> 0 \<Longrightarrow> cmp a b = 0"
  using cmp_swap [of a b] cmp_swap [of b a] by auto

lemma sorted_insert: "sorted_by cmp xs \<Longrightarrow> sorted_by cmp (insert_cmp cmp x xs)"
proof (induction xs)
  case (Cons y ys)
  show ?case
  proof (cases "cmp x y < 0")
    case True
    then show ?thesis
      using Cons.prems cmp_trans [of x y] by (auto simp: sorted_by_def)
  next
    case False
    then have "cmp y x \<le> 0" using cmp_swap [of x y] by auto
    then show ?thesis
      using Cons False by (auto simp: sorted_by_def)
  qed
qed (simp add: sorted_by_def)

lemma sorted_into: "sorted_by cmp acc \<Longrightarrow> sorted_by cmp (sort_into cmp acc xs)"
  by (induction xs arbitrary: acc) (auto simp: sorted_insert)

lemma sorted_sort: "sorted_by cmp (sort_func cmp xs)"
  unfolding sort_func_def by (rule sorted_into) (simp add: sorted_by_def)

lemma sort_unique:
  assumes "sorted_by cmp xs" "sorted_by cmp ys" "mset xs = mset ys"
    and "\<And>a b. a \<in> set xs \<Longrightarrow> b \<in> set xs \<Longrightarrow> cmp a b = 0 \<Longrightarrow> a = b"
  shows "xs = ys"
  using assms
proof (induction xs arbitrary: ys)
  case (Cons x xs)
  then obtain y ys' where ys: "ys = y # ys'" by (cases ys) auto
  have mem: "y \<in> set (x # xs)" "x \<in> set ys"
    using Cons.prems(3) ys by (metis list.set_intros(1) mset_eq_setD)+
  have "cmp x y \<le> 0" "cmp y x \<le> 0"
    using mem Cons.prems(1,2) ys by (auto simp: sorted_by_def cmp_refl)
  then have "cmp x y = 0" by (rule cmp_tie)
  then have "x = y" using Cons.prems(4) [of x y] mem(1) by simp
  then have "mset xs = mset ys'" using Cons.prems(3) ys by simp
  moreover have "sorted_by cmp xs" "sorted_by cmp ys'"
    using Cons.prems(1,2) ys by (simp_all add: sorted_by_def)
  ultimately have "xs = ys'"
    using Cons.IH [of ys'] Cons.prems(4) by (meson list.set_intros(2))
  then show ?case using ys \<open>x = y\<close> by simp
qed simp

lemma sort_perm_unique:
  assumes "mset xs = mset ys" "\<And>a b. a \<in> set xs \<Longrightarrow> b \<in> set xs \<Longrightarrow> cmp a b = 0 \<Longrightarrow> a = b"
  shows "sort_func cmp xs = sort_func cmp ys"
  using assms by (intro sort_unique) (auto simp: sorted_sort)

end

end
