(* ===== verification/Query.thy ===== *)
theory Query imports GoStrings SortFunc begin

text \<open>
  The read contract (\<open>query.go\<close>): \<open>ParseQuery\<close> turns a query string into paging, sort keys, a
  cursor and filters. A \<open>url.Values\<close> is the list of its entries in the order Go's map iteration
  happens to visit them, with distinct keys; \<open>parse_query_order\<close> shows that an accepted query does
  not depend on that order.
\<close>

section \<open>Data\<close>

record sort_item =
  s_field :: string
  s_descending :: bool

record filter_item =
  f_field :: string
  f_op :: string
  f_values :: "string list"

record query =
  q_page :: int
  q_size :: int
  q_sort :: "sort_item list"
  q_filters :: "filter_item list"
  q_cursor :: string

record limits =
  l_default_size :: int
  l_max_size :: int
  l_cursor :: bool

record query_error =
  qe_param :: string
  qe_value :: string
  qe_reason :: string

type_synonym url_values = "(string \<times> string list) list"

definition reserved :: "string list" where
  "reserved = [''page'', ''size'', ''sort'', ''cursor'']"

definition values_of :: "url_values \<Rightarrow> string \<Rightarrow> string list" where
  "values_of q k = (case map_of q k of None \<Rightarrow> [] | Some vs \<Rightarrow> vs)"

definition values_get :: "url_values \<Rightarrow> string \<Rightarrow> string" where
  "values_get q k = (case values_of q k of [] \<Rightarrow> [] | v # _ \<Rightarrow> v)"

section \<open>Filter keys\<close>

definition slice :: "nat \<Rightarrow> nat \<Rightarrow> 'a list \<Rightarrow> 'a list" where
  "slice i j s = take (j - i) (drop i s)"

definition query_reject :: "string \<Rightarrow> string \<Rightarrow> string \<Rightarrow> (query_error, 'a) res" where
  "query_reject param value reason = Fail \<lparr>qe_param = param, qe_value = value, qe_reason = reason\<rparr>"

lemma query_reject_simps [simp, res_simps]:
  "query_reject p v r \<noteq> Ok a" "is_ok (query_reject p v r) = False" "query_reject p v r \<noteq> Panic m"
  "res_bind (query_reject p v r) f = query_reject p v r"
  by (simp_all add: query_reject_def)

definition parse_filter_key :: "string \<Rightarrow> string list \<Rightarrow> (query_error, string \<times> string) res" where
  "parse_filter_key key values =
     (let value = (case values of [] \<Rightarrow> [] | v # _ \<Rightarrow> v) in
      if key = [] then query_reject key value ''the parameter has no name''
      else case index_byte key (CHR ''['') of
        None \<Rightarrow>
          if index_byte key (CHR '']'') \<noteq> None
          then query_reject key value ''unbalanced bracket in the parameter name''
          else Ok (key, [])
      | Some open \<Rightarrow>
          if open = 0 then query_reject key value ''the operator must follow a field name''
          else if \<not> has_suffix key '']'' \<or> count_list key (CHR ''['') \<noteq> 1 \<or> count_list key (CHR '']'') \<noteq> 1
          then query_reject key value ''the operator must be one bracketed suffix, like name[op]''
          else let field = take open key; op = slice (open + 1) (length key - 1) key in
            if op = [] then query_reject key value ''empty operator''
            else if field \<in> set reserved then query_reject field value ''takes no operator''
            else Ok (field, op))"

section \<open>The parameters the parser consumes\<close>

definition parse_page :: "url_values \<Rightarrow> limits \<Rightarrow> (query_error, int) res" where
  "parse_page q l =
     (let v = values_get q ''page'' in
      if v = [] then Ok 1
      else case parse_int v of
        None \<Rightarrow> query_reject ''page'' v ''must be an integer of at least 1''
      | Some n \<Rightarrow>
          if n < 1 then query_reject ''page'' v ''must be an integer of at least 1''
          else let last_page = max_int div l_max_size l in
            if n > last_page then query_reject ''page'' v (''must be at most '' @ show_int last_page)
            else Ok n)"

definition parse_cursor :: "url_values \<Rightarrow> limits \<Rightarrow> int \<Rightarrow> (query_error, int \<times> string) res" where
  "parse_cursor q l page =
     (let v = values_get q ''cursor'' in
      if v = [] then Ok (page, [])
      else if \<not> l_cursor l then query_reject ''cursor'' v ''this read does not continue by cursor''
      else if values_get q ''page'' \<noteq> [] then query_reject ''cursor'' v ''cannot be combined with page''
      else Ok (0, v))"

definition parse_size :: "url_values \<Rightarrow> limits \<Rightarrow> (query_error, int) res" where
  "parse_size q l =
     (let v = values_get q ''size'' in
      if v = [] then Ok (l_default_size l)
      else case parse_int v of
        None \<Rightarrow> query_reject ''size'' v ''must be an integer of at least 1''
      | Some n \<Rightarrow>
          if n < 1 then query_reject ''size'' v ''must be an integer of at least 1''
          else if n > l_max_size l
          then query_reject ''size'' v (''must be at most '' @ show_int (l_max_size l))
          else Ok n)"

fun parse_sort_tokens :: "string \<Rightarrow> string list \<Rightarrow> (query_error, sort_item list) res" where
  "parse_sort_tokens v [] = Ok []"
| "parse_sort_tokens v (token # ts) =
     (let s = \<lparr>s_field = trim_prefix token ''-'', s_descending = has_prefix token ''-''\<rparr> in
      if s_field s = [] then query_reject ''sort'' v ''empty sort key''
      else res_bind (parse_sort_tokens v ts) (\<lambda>ss. Ok (s # ss)))"

fun parse_sorts :: "string list \<Rightarrow> (query_error, sort_item list) res" where
  "parse_sorts [] = Ok []"
| "parse_sorts (v # vs) =
     (if v = [] then parse_sorts vs
      else res_bind (parse_sort_tokens v (split_on (CHR '','') v))
        (\<lambda>ss. res_bind (parse_sorts vs) (\<lambda>rest. Ok (ss @ rest))))"

fun parse_filters :: "url_values \<Rightarrow> (query_error, filter_item list) res" where
  "parse_filters [] = Ok []"
| "parse_filters ((key, values) # rest) =
     (if key \<in> set reserved then parse_filters rest
      else res_bind (parse_filter_key key values)
        (\<lambda>(field, op). res_bind (parse_filters rest)
          (\<lambda>fs. Ok (\<lparr>f_field = field, f_op = op, f_values = values\<rparr> # fs))))"

text \<open>\<open>strings.Compare\<close>, and the comparison the filters are sorted by.\<close>

definition compare_strings :: "string \<Rightarrow> string \<Rightarrow> int" where
  "compare_strings a b = (if a < b then -1 else if a = b then 0 else 1)"

definition filter_cmp :: "filter_item \<Rightarrow> filter_item \<Rightarrow> int" where
  "filter_cmp a b =
     (let c = compare_strings (f_field a) (f_field b) in
      if c \<noteq> 0 then c else compare_strings (f_op a) (f_op b))"

definition parse_query :: "url_values \<Rightarrow> limits \<Rightarrow> (query_error, query) res" where
  "parse_query q l =
     (if l_default_size l < 1 \<or> l_max_size l < l_default_size l
      then Panic (''web: Limits{DefaultSize: '' @ show_int (l_default_size l) @ '', MaxSize: '' @
        show_int (l_max_size l) @
        ''} is invalid: DefaultSize must be at least 1 and MaxSize at least DefaultSize'')
      else
        res_bind (parse_page q l) (\<lambda>page.
        res_bind (parse_cursor q l page) (\<lambda>(page', cursor).
        res_bind (parse_size q l) (\<lambda>size.
        res_bind (parse_sorts (values_of q ''sort'')) (\<lambda>sorts.
        res_bind (parse_filters q) (\<lambda>filters.
          Ok \<lparr>q_page = page', q_size = size, q_sort = sorts,
              q_filters = sort_func filter_cmp filters, q_cursor = cursor\<rparr>))))))"

section \<open>Filter keys: exactly the grammar name or name[op]\<close>

definition plain_name :: "string \<Rightarrow> bool" where
  "plain_name s \<longleftrightarrow> s \<noteq> [] \<and> CHR ''['' \<notin> set s \<and> CHR '']'' \<notin> set s"

lemma count_list_append [simp]: "count_list (xs @ ys) x = count_list xs x + count_list ys x"
  by (induction xs) auto

lemma slice_middle: "slice (length f + 1) (length (f @ c # v @ [d]) - 1) (f @ c # v @ [d]) = v"
  by (simp add: slice_def)

text \<open>A key that passes the bracket checks is a name, a bracket, an operator and a bracket.\<close>

lemma bracketed_shape:
  assumes "index_byte key (CHR ''['') = Some i" "has_suffix key '']''"
    "count_list key (CHR ''['') = 1" "count_list key (CHR '']'') = 1"
  obtains f v where "key = f @ CHR ''['' # v @ '']''" "take i key = f" "length f = i"
    "slice (i + 1) (length key - 1) key = v"
    "CHR ''['' \<notin> set f" "CHR '']'' \<notin> set f" "CHR ''['' \<notin> set v" "CHR '']'' \<notin> set v"
proof -
  define f u where "f = take i key" and "u = drop (Suc i) key"
  have len: "length f = i" and key: "key = f @ CHR ''['' # u"
    using index_byte_Some [OF assms(1)] index_byte_SomeD [OF assms(1)] by (auto simp: f_def u_def)
  have "last key = CHR '']''" using assms(2) by (simp add: has_suffix_single)
  then have u: "u \<noteq> []" "last u = CHR '']''" using key by (auto split: if_splits)
  define v where "v = butlast u"
  have k: "key = f @ CHR ''['' # v @ '']''"
    using append_butlast_last_id [OF u(1)] u(2) key by (simp add: v_def)
  have "CHR ''['' \<notin> set f" "CHR '']'' \<notin> set f" "CHR ''['' \<notin> set v" "CHR '']'' \<notin> set v"
    using assms(3,4) unfolding k by (simp_all add: count_list_0_iff)
  moreover have "slice (i + 1) (length key - 1) key = v"
    using slice_middle [of f "CHR ''[''" v "CHR '']''"] k len by simp
  ultimately show thesis using that [OF k] k len by simp
qed

text \<open>
  The filter-key parser accepts exactly the documented grammar: a plain
  name, or a name with one non-empty bracketed operator on a parameter that is not reserved;
  what it returns is the name and the operator the key spells.
\<close>

lemma parse_filter_key_iff:
  "parse_filter_key key vs = Ok (f, opr) \<longleftrightarrow>
     plain_name f \<and>
     (if opr = [] then key = f
      else key = f @ ''['' @ opr @ '']'' \<and> CHR ''['' \<notin> set opr \<and> CHR '']'' \<notin> set opr \<and> f \<notin> set reserved)"
  (is "?parsed \<longleftrightarrow> ?grammar")
proof
  assume p: ?parsed
  then have ne: "key \<noteq> []"
    by (auto simp: parse_filter_key_def Let_def)
  show ?grammar
  proof (cases "index_byte key (CHR ''['')")
    case None
    with p ne show ?thesis
      by (auto simp: parse_filter_key_def Let_def plain_name_def index_byte_None split: if_splits)
  next
    case (Some i)
    with p ne have c: "i \<noteq> 0" "has_suffix key '']''" "count_list key (CHR ''['') = 1"
      "count_list key (CHR '']'') = 1"
      by (auto simp: parse_filter_key_def Let_def split: if_splits)
    obtain g v where k: "key = g @ CHR ''['' # v @ '']''" "take i key = g" "length g = i"
      "slice (i + 1) (length key - 1) key = v"
      "CHR ''['' \<notin> set g" "CHR '']'' \<notin> set g" "CHR ''['' \<notin> set v" "CHR '']'' \<notin> set v"
      using bracketed_shape [OF Some c(2-4)] .
    have "parse_filter_key key vs =
        (if v = [] then query_reject key (case vs of [] \<Rightarrow> [] | x # _ \<Rightarrow> x) ''empty operator''
         else if g \<in> set reserved then query_reject g (case vs of [] \<Rightarrow> [] | x # _ \<Rightarrow> x) ''takes no operator''
         else Ok (g, v))"
      using ne Some c k(2,4) by (simp add: parse_filter_key_def Let_def)
    with p have "v \<noteq> []" "g \<notin> set reserved" "f = g" "opr = v"
      by (auto split: if_splits)
    with k c(1) show ?thesis by (auto simp: plain_name_def)
  qed
next
  assume g: ?grammar
  show ?parsed
  proof (cases "opr = []")
    case True
    with g have "key = f" "f \<noteq> []" "index_byte f (CHR ''['') = None" "index_byte f (CHR '']'') = None"
      by (simp_all add: plain_name_def)
    with True show ?thesis
      by (simp add: parse_filter_key_def)
  next
    case False
    with g have k: "key = f @ CHR ''['' # opr @ '']''" and f: "f \<noteq> []" "f \<notin> set reserved"
      and n: "CHR ''['' \<notin> set f" "CHR '']'' \<notin> set f" "CHR ''['' \<notin> set opr" "CHR '']'' \<notin> set opr"
      by (auto simp: plain_name_def)
    have "index_byte key (CHR ''['') = Some (length f)"
      using n(1) by (simp add: k index_byte_append)
    moreover have "has_suffix key '']''" by (simp add: k has_suffix_single)
    moreover have "count_list key (CHR ''['') = 1" "count_list key (CHR '']'') = 1"
      using n by (simp_all add: k count_list_0_iff)
    moreover have "slice (length f + 1) (length key - 1) key = opr"
      by (simp add: k slice_def)
    ultimately show ?thesis
      using f False by (simp add: parse_filter_key_def Let_def k)
  qed
qed

section \<open>Filters do not depend on the iteration order\<close>

definition filter_key :: "string \<Rightarrow> string \<Rightarrow> string" where
  "filter_key f opr = (if opr = [] then f else f @ ''['' @ opr @ '']'')"

lemma parse_filter_key_inverse: "parse_filter_key key vs = Ok (f, opr) \<Longrightarrow> filter_key f opr = key"
  by (auto simp: parse_filter_key_iff filter_key_def split: if_splits)

definition is_filter :: "string \<times> string list \<Rightarrow> bool" where
  "is_filter kv = (fst kv \<notin> set reserved)"

definition filter_of :: "string \<times> string list \<Rightarrow> filter_item" where
  "filter_of kv =
     (case parse_filter_key (fst kv) (snd kv) of
        Ok (field, op) \<Rightarrow> \<lparr>f_field = field, f_op = op, f_values = snd kv\<rparr>
      | _ \<Rightarrow> \<lparr>f_field = [], f_op = [], f_values = []\<rparr>)"

definition key_accepted :: "string \<times> string list \<Rightarrow> bool" where
  "key_accepted kv = is_ok (parse_filter_key (fst kv) (snd kv))"

lemma parse_filters_Ok:
  "parse_filters q = Ok fs \<longleftrightarrow>
     (\<forall>kv \<in> set (filter is_filter q). key_accepted kv) \<and> fs = map filter_of (filter is_filter q)"
proof (induction q arbitrary: fs)
  case (Cons kv q)
  obtain k vs where kv: "kv = (k, vs)" by (cases kv)
  show ?case
    using Cons
    by (cases "parse_filter_key k vs")
      (auto simp: kv is_filter_def key_accepted_def filter_of_def res_simps)
qed auto

lemma filter_of_key:
  assumes "key_accepted kv"
  shows "filter_key (f_field (filter_of kv)) (f_op (filter_of kv)) = fst kv"
    and "f_values (filter_of kv) = snd kv"
  using assms
  by (auto simp: key_accepted_def filter_of_def is_ok_iff dest: parse_filter_key_inverse)

lemma compare_strings_simps:
  "compare_strings a b < 0 \<longleftrightarrow> a < b" "compare_strings a b = 0 \<longleftrightarrow> a = b"
  "compare_strings a b \<le> 0 \<longleftrightarrow> a \<le> b" "0 < compare_strings a b \<longleftrightarrow> b < a"
  by (auto simp: compare_strings_def)

definition filter_pair :: "filter_item \<Rightarrow> string \<times> string" where
  "filter_pair f = (f_field f, f_op f)"

lemma filter_cmp_pair:
  "filter_cmp a b < 0 \<longleftrightarrow> filter_pair a < filter_pair b"
  "filter_cmp a b = 0 \<longleftrightarrow> filter_pair a = filter_pair b"
  "filter_cmp a b \<le> 0 \<longleftrightarrow> filter_pair a \<le> filter_pair b"
  "0 < filter_cmp a b \<longleftrightarrow> filter_pair b < filter_pair a"
  by (auto simp: filter_cmp_def filter_pair_def Let_def compare_strings_simps less_prod_def
      less_eq_prod_def)

interpretation filter_sort: sort_cmp filter_cmp
  by unfold_locales (auto simp: filter_cmp_pair)

lemma filters_no_tie:
  assumes "distinct (map fst q)" "\<forall>kv \<in> set (filter is_filter q). key_accepted kv"
    and "a \<in> set (map filter_of (filter is_filter q))" "b \<in> set (map filter_of (filter is_filter q))"
    and "filter_pair a = filter_pair b"
  shows "a = b"
proof -
  obtain x y where x: "x \<in> set q" "key_accepted x" "a = filter_of x"
    and y: "y \<in> set q" "key_accepted y" "b = filter_of y"
    using assms(2-4) by auto
  then have "fst x = fst y"
    using filter_of_key(1) [of x] filter_of_key(1) [of y] assms(5) by (simp add: filter_pair_def)
  then have "x = y"
    using x(1) y(1) assms(1) by (metis eq_key_imp_eq_value prod.collapse)
  then show ?thesis using x(3) y(3) by simp
qed

lemma sorted_filters_perm:
  assumes "distinct (map fst q)" "mset q = mset q'" "parse_filters q = Ok fs"
  shows "\<exists>fs'. parse_filters q' = Ok fs' \<and> sort_func filter_cmp fs' = sort_func filter_cmp fs"
proof -
  have ok: "\<forall>kv \<in> set (filter is_filter q). key_accepted kv"
    and fs: "fs = map filter_of (filter is_filter q)"
    using assms(3) by (simp_all add: parse_filters_Ok)
  define fs' where "fs' = map filter_of (filter is_filter q')"
  have "parse_filters q' = Ok fs'"
    using ok mset_eq_setD [OF assms(2)] by (simp add: parse_filters_Ok fs'_def)
  moreover have "mset fs = mset fs'"
    using assms(2) by (simp add: fs fs'_def mset_filter)
  then have "sort_func filter_cmp fs = sort_func filter_cmp fs'"
    using filters_no_tie [OF assms(1) ok]
    by (intro filter_sort.sort_perm_unique) (auto simp: filter_cmp_pair fs)
  ultimately show ?thesis by auto
qed

lemma values_perm:
  assumes "distinct (map fst q)" "mset q = mset q'"
  shows "values_of q = values_of q'" "values_get q = values_get q'"
  using distinct_map_of_perm [OF assms] by (auto simp: values_of_def values_get_def fun_eq_iff)

lemma parameters_perm:
  assumes "distinct (map fst q)" "mset q = mset q'"
  shows "parse_page q = parse_page q'" "parse_cursor q = parse_cursor q'" "parse_size q = parse_size q'"
  unfolding parse_page_def [abs_def] parse_cursor_def [abs_def] parse_size_def [abs_def]
    values_perm [OF assms] by (rule refl)+

lemma parse_query_Ok:
  "parse_query q l = Ok out \<longleftrightarrow>
     1 \<le> l_default_size l \<and> l_default_size l \<le> l_max_size l \<and>
     (\<exists>page fs. parse_page q l = Ok page \<and> parse_cursor q l page = Ok (q_page out, q_cursor out) \<and>
       parse_size q l = Ok (q_size out) \<and> parse_sorts (values_of q ''sort'') = Ok (q_sort out) \<and>
       parse_filters q = Ok fs \<and> q_filters out = sort_func filter_cmp fs)"
  by (cases out) (auto simp: parse_query_def res_simps)

text \<open>
  Claim C26 (safety). An accepted query does not depend on the order in which Go's map iteration
  visits the parameters: on any two orders of the same entries \<open>ParseQuery\<close> accepts the same
  requests, with the same result, filters included.
\<close>

theorem parse_query_order:
  assumes "distinct (map fst q)" "mset q = mset q'"
  shows "parse_query q l = Ok out \<longleftrightarrow> parse_query q' l = Ok out"
proof -
  have *: "parse_query p' l = Ok out"
    if d: "distinct (map fst p)" and m: "mset p = mset p'" and ok: "parse_query p l = Ok out" for p p'
  proof -
    obtain fs where fs: "parse_filters p = Ok fs" "q_filters out = sort_func filter_cmp fs"
      using ok by (auto simp: parse_query_Ok)
    obtain fs' where "parse_filters p' = Ok fs'" "sort_func filter_cmp fs' = sort_func filter_cmp fs"
      using sorted_filters_perm [OF d m fs(1)] by blast
    then show ?thesis
      using ok fs by (auto simp: parse_query_Ok values_perm [OF d m] parameters_perm [OF d m])
  qed
  show ?thesis
    using * [OF assms] * [OF perm_distinct_fst [OF assms] assms(2) [symmetric]] by blast
qed

theorem parse_query_order_witness:
  "is_ok (parse_query [(''b[x]'', [''1'']), (''page'', [''2'']), (''a'', [''3''])]
     \<lparr>l_default_size = 20, l_max_size = 100, l_cursor = False\<rparr>) \<and>
   parse_query [(''b[x]'', [''1'']), (''page'', [''2'']), (''a'', [''3''])]
     \<lparr>l_default_size = 20, l_max_size = 100, l_cursor = False\<rparr> =
   parse_query [(''a'', [''3'']), (''b[x]'', [''1'']), (''page'', [''2''])]
     \<lparr>l_default_size = 20, l_max_size = 100, l_cursor = False\<rparr>"
proof -
  let ?q = "[(''b[x]'', [''1'']), (''page'', [''2'']), (''a'', [''3''])]"
  let ?q' = "[(''a'', [''3'']), (''b[x]'', [''1'']), (''page'', [''2''])]"
  let ?l = "\<lparr>l_default_size = 20, l_max_size = 100, l_cursor = False\<rparr>"
  have "is_ok (parse_query ?q ?l)" by code_simp
  then obtain out where "parse_query ?q ?l = Ok out" by (auto simp: is_ok_iff)
  moreover have "parse_query ?q ?l = Ok out \<longleftrightarrow> parse_query ?q' ?l = Ok out"
    by (rule parse_query_order) simp_all
  ultimately show ?thesis by simp
qed

section \<open>Bounds\<close>

lemma parse_page_Ok:
  "parse_page q l = Ok p \<Longrightarrow> 1 \<le> l_max_size l \<Longrightarrow> l_max_size l \<le> max_int \<Longrightarrow>
     1 \<le> p \<and> p \<le> max_int div l_max_size l"
  by (auto simp: parse_page_def Let_def pos_imp_zdiv_pos_iff zdiv_mono2 split: if_splits option.splits)
   (metis div_self int_one_le_iff_zero_less less_le_not_le not_less zdiv_mono1 zero_less_one)

lemma parse_cursor_Ok:
  "parse_cursor q l p = Ok (p', c) \<Longrightarrow>
     (c = [] \<and> p' = p) \<or> (c \<noteq> [] \<and> p' = 0 \<and> l_cursor l \<and> values_get q ''page'' = [])"
  by (auto simp: parse_cursor_def Let_def split: if_splits)

lemma parse_size_Ok:
  "parse_size q l = Ok n \<Longrightarrow> 1 \<le> l_default_size l \<Longrightarrow> l_default_size l \<le> l_max_size l \<Longrightarrow>
     1 \<le> n \<and> n \<le> l_max_size l"
  by (auto simp: parse_size_def Let_def split: if_splits option.splits)

lemma parse_query_page_size:
  assumes "parse_query q l = Ok out" "l_max_size l \<le> max_int"
  shows "1 \<le> q_size out \<and> q_size out \<le> l_max_size l \<and>
    (if q_cursor out = []
     then 1 \<le> q_page out \<and> (\<forall>n \<in> {1..l_max_size l}. int64 ((q_page out - 1) * n))
     else q_page out = 0 \<and> l_cursor l \<and> values_get q ''page'' = [])"
proof -
  obtain page where l: "1 \<le> l_default_size l" "l_default_size l \<le> l_max_size l"
    and page: "parse_page q l = Ok page" and cur: "parse_cursor q l page = Ok (q_page out, q_cursor out)"
    and size: "parse_size q l = Ok (q_size out)"
    using assms(1) by (auto simp: parse_query_Ok)
  have p: "1 \<le> page" "page \<le> max_int div l_max_size l"
    using parse_page_Ok [OF page] l assms(2) by auto
  have "page * l_max_size l \<le> max_int div l_max_size l * l_max_size l"
    using p(2) l by (intro mult_right_mono) auto
  also have "\<dots> \<le> max_int"
    using l by (simp flip: minus_mod_eq_div_mult)
  finally have top: "page * l_max_size l \<le> max_int" .
  have "int64 ((page - 1) * n)" if "n \<in> {1..l_max_size l}" for n
  proof -
    have "(page - 1) * n \<le> page * l_max_size l"
      using p(1) that by (intro mult_mono) auto
    moreover have "0 \<le> (page - 1) * n" using p(1) that by simp
    ultimately show ?thesis using top by (simp add: int64_def min_int_def)
  qed
  with p(1) show ?thesis
    using parse_size_Ok [OF size l] parse_cursor_Ok [OF cur] by auto
qed

text \<open>
  Claim C24 (bounds). What the data layer may rely on for an accepted query: the size is within
  the limits; a read is addressed either by a page of at least 1 or by a cursor, never both, and
  by a cursor only where the read opts in; and the offset of the page, (page - 1) times any size
  the limits allow, fits a 64-bit integer.
\<close>

theorem parse_query_bounds:
  assumes "parse_query q l = Ok out" "l_max_size l \<le> max_int"
  shows "1 \<le> q_size out \<and> q_size out \<le> l_max_size l \<and>
    (if q_cursor out = []
     then 1 \<le> q_page out \<and> (\<forall>n \<in> {1..l_max_size l}. int64 ((q_page out - 1) * n))
     else q_page out = 0 \<and> l_cursor l \<and> values_get q ''page'' = [])"
  using assms by (rule parse_query_page_size)

theorem parse_query_bounds_witness:
  "\<exists>out. parse_query [(''page'', [''3'']), (''size'', [''50''])]
       \<lparr>l_default_size = 20, l_max_size = 100, l_cursor = False\<rparr> = Ok out \<and>
     1 \<le> q_size out \<and> q_size out \<le> 100 \<and> 1 \<le> q_page out"
proof -
  let ?q = "[(''page'', [''3'']), (''size'', [''50''])]"
  let ?l = "\<lparr>l_default_size = 20, l_max_size = 100, l_cursor = False\<rparr>"
  let ?out = "\<lparr>q_page = 3, q_size = 50, q_sort = [], q_filters = [], q_cursor = []\<rparr>"
  have "parse_query ?q ?l = Ok ?out" by code_simp
  from this parse_query_bounds [OF this] show ?thesis
    by (intro exI [of _ ?out]) (simp add: max_int_def)
qed

section \<open>Filters: nothing lost, nothing added\<close>

text \<open>
  Claim C25 (functional). The filters of an accepted query are exactly the parameters that are
  not reserved, each with every value it carried, none lost, added or renamed, in strictly
  increasing order of field, then operator.
\<close>

theorem parse_query_filters:
  assumes "distinct (map fst q)" "parse_query q l = Ok out"
  shows "mset (map (\<lambda>f. (filter_key (f_field f) (f_op f), f_values f)) (q_filters out)) =
      mset (filter (\<lambda>kv. fst kv \<notin> set reserved) q) \<and>
    sorted_wrt (<) (map (\<lambda>f. (f_field f, f_op f)) (q_filters out))"
proof -
  obtain fs where f: "parse_filters q = Ok fs" "q_filters out = sort_func filter_cmp fs"
    using assms(2) by (auto simp: parse_query_Ok)
  have ok: "\<forall>kv \<in> set (filter is_filter q). key_accepted kv"
    and fs: "fs = map filter_of (filter is_filter q)"
    using f(1) by (simp_all add: parse_filters_Ok)
  have entries: "map (\<lambda>f. (filter_key (f_field f) (f_op f), f_values f)) fs = filter is_filter q"
    using ok by (auto simp: fs filter_of_key intro!: map_idI)
  have "mset (map (\<lambda>f. (filter_key (f_field f) (f_op f), f_values f)) (q_filters out)) =
      mset (filter is_filter q)"
    unfolding f(2) entries [symmetric] by (simp only: mset_map mset_sort_func)
  moreover have "sorted_wrt (<) (map filter_pair (q_filters out))"
  proof -
    have "inj_on filter_pair (set fs)"
      using filters_no_tie [OF assms(1) ok] by (auto simp: inj_on_def fs)
    moreover have "distinct fs"
      using entries assms(1) by (metis distinct_filter distinct_map)
    ultimately have "distinct (map filter_pair (q_filters out))"
      by (simp add: f(2) distinct_sort_func distinct_map)
    moreover have "sorted (map filter_pair (q_filters out))"
      using filter_sort.sorted_sort [of fs]
      by (simp add: f(2) sorted_by_def sorted_wrt_map filter_cmp_pair)
    ultimately show ?thesis by (simp add: strict_sorted_iff)
  qed
  ultimately show ?thesis by (simp add: is_filter_def [abs_def] filter_pair_def [abs_def])
qed

theorem parse_query_filters_witness:
  "\<exists>out. parse_query [(''status'', [''a'', ''b'']), (''page'', [''2'']), (''created[gte]'', [''x''])]
       \<lparr>l_default_size = 20, l_max_size = 100, l_cursor = False\<rparr> = Ok out \<and>
     mset (map (\<lambda>f. (filter_key (f_field f) (f_op f), f_values f)) (q_filters out)) =
       {#(''created[gte]'', [''x'']), (''status'', [''a'', ''b''])#}"
proof -
  let ?q = "[(''status'', [''a'', ''b'']), (''page'', [''2'']), (''created[gte]'', [''x''])]"
  let ?l = "\<lparr>l_default_size = 20, l_max_size = 100, l_cursor = False\<rparr>"
  have "is_ok (parse_query ?q ?l)" by code_simp
  then obtain out where "parse_query ?q ?l = Ok out" by (auto simp: is_ok_iff)
  from this parse_query_filters [OF _ this] show ?thesis
    by (intro exI [of _ out]) (simp add: reserved_def)
qed

section \<open>Sort keys\<close>

definition render_sort :: "sort_item \<Rightarrow> string" where
  "render_sort s = (if s_descending s then ''-'' else []) @ s_field s"

lemma parse_sort_tokens_Ok:
  "parse_sort_tokens v ts = Ok ss \<Longrightarrow> map render_sort ss = ts \<and> (\<forall>s \<in> set ss. s_field s \<noteq> [])"
  by (induction ts arbitrary: ss)
    (auto simp: Let_def res_simps render_sort_def trim_prefix_def has_prefix_iff split: if_splits)

lemma parse_sorts_Ok:
  "parse_sorts vs = Ok ss \<Longrightarrow>
     map render_sort ss = concat (map (split_on (CHR '','')) (filter (\<lambda>v. v \<noteq> []) vs)) \<and>
     (\<forall>s \<in> set ss. s_field s \<noteq> [])"
proof (induction vs arbitrary: ss)
  case (Cons v vs)
  then show ?case
    by (cases "v = []") (auto simp: res_simps dest!: parse_sort_tokens_Ok)
qed simp

text \<open>The fields a request can name: not empty, no comma, and no leading minus when ascending.\<close>

definition sort_expressible :: "sort_item \<Rightarrow> bool" where
  "sort_expressible s \<longleftrightarrow>
     s_field s \<noteq> [] \<and> CHR '','' \<notin> set (s_field s) \<and> (s_descending s \<or> \<not> has_prefix (s_field s) ''-'')"

lemma parse_sort_tokens_render:
  "(\<And>s. s \<in> set ss \<Longrightarrow> sort_expressible s) \<Longrightarrow> parse_sort_tokens v (map render_sort ss) = Ok ss"
  by (induction ss)
    (auto simp: render_sort_def sort_expressible_def trim_prefix_def Let_def split: if_splits)

text \<open>
  Every list of sort keys a request can express, written out as the
  comma-separated value of one sort parameter, parses back to itself, in order; and whatever the
  parser accepts, its keys render back to the tokens of the parameters, in request order.
\<close>

theorem sort_roundtrip:
  "(ss \<noteq> [] \<and> (\<forall>s \<in> set ss. sort_expressible s) \<longrightarrow>
      parse_sorts [join (map render_sort ss) '',''] = Ok ss) \<and>
   (parse_sorts vs = Ok ss' \<longrightarrow>
      map render_sort ss' = concat (map (split_on (CHR '','')) (filter (\<lambda>v. v \<noteq> []) vs)))"
proof (intro conjI impI)
  assume "ss \<noteq> [] \<and> (\<forall>s \<in> set ss. sort_expressible s)"
  then have a: "ss \<noteq> []" "\<And>s. s \<in> set ss \<Longrightarrow> sort_expressible s" by auto
  have "split_on (CHR '','') (join (map render_sort ss) '','') = map render_sort ss"
    using a by (intro split_on_join) (auto simp: render_sort_def sort_expressible_def)
  moreover have "join (map render_sort ss) '','' \<noteq> []"
    using a by (cases ss; cases "tl ss") (auto simp: render_sort_def sort_expressible_def)
  ultimately show "parse_sorts [join (map render_sort ss) '',''] = Ok ss"
    using parse_sort_tokens_render [OF a(2)] by simp
qed (simp add: parse_sorts_Ok)

theorem sort_roundtrip_witness:
  "parse_sorts [''name,-code''] =
     Ok [\<lparr>s_field = ''name'', s_descending = False\<rparr>, \<lparr>s_field = ''code'', s_descending = True\<rparr>]"
proof -
  let ?ss = "[\<lparr>s_field = ''name'', s_descending = False\<rparr>, \<lparr>s_field = ''code'', s_descending = True\<rparr>]"
  have "\<forall>s \<in> set ?ss. sort_expressible s" by (simp add: sort_expressible_def)
  then have "parse_sorts [join (map render_sort ?ss) '',''] = Ok ?ss"
    using sort_roundtrip [of ?ss "[]" "[]"] by simp
  then show ?thesis by (simp add: render_sort_def)
qed

section \<open>Rejections\<close>

lemma query_reject_Fail [simp]:
  "query_reject p v r = Fail e \<longleftrightarrow> e = \<lparr>qe_param = p, qe_value = v, qe_reason = r\<rparr>"
  "\<not> is_panic (query_reject p v r)"
  by (auto simp: query_reject_def)

lemma parse_filter_key_Fail:
  "parse_filter_key key vs = Fail e \<Longrightarrow> qe_param e = key \<or> qe_param e \<in> set reserved"
  by (auto simp: parse_filter_key_def Let_def split: if_splits option.splits)

lemma parse_filters_Fail:
  "parse_filters q = Fail e \<Longrightarrow> qe_param e \<in> set (map fst q) \<or> qe_param e \<in> set reserved"
proof (induction q)
  case (Cons kv q)
  then show ?case
    by (cases kv) (auto simp: res_simps dest: parse_filter_key_Fail split: if_splits)
qed simp

lemma parse_sort_tokens_Fail: "parse_sort_tokens v ts = Fail e \<Longrightarrow> qe_param e = ''sort''"
  by (induction ts) (auto simp: Let_def res_simps split: if_splits)

lemma parse_sorts_Fail: "parse_sorts vs = Fail e \<Longrightarrow> qe_param e = ''sort''"
  by (induction vs) (auto simp: res_simps dest: parse_sort_tokens_Fail split: if_splits)

lemma parameters_Fail:
  "parse_page q l = Fail e \<Longrightarrow> qe_param e = ''page''"
  "parse_cursor q l p = Fail e \<Longrightarrow> qe_param e = ''cursor''"
  "parse_size q l = Fail e \<Longrightarrow> qe_param e = ''size''"
  by (auto simp: parse_page_def parse_cursor_def parse_size_def Let_def split: if_splits option.splits)

lemma parsers_no_panic:
  "\<not> is_panic (parse_page q l)" "\<not> is_panic (parse_cursor q l p)" "\<not> is_panic (parse_size q l)"
  "\<not> is_panic (parse_filter_key key vs)"
  by (auto simp: parse_page_def parse_cursor_def parse_size_def parse_filter_key_def Let_def
      split: option.splits)

lemma lists_no_panic:
  "\<not> is_panic (parse_sort_tokens v ts)" "\<not> is_panic (parse_sorts vs)" "\<not> is_panic (parse_filters q)"
proof -
  show *: "\<not> is_panic (parse_sort_tokens v ts)" for v ts
    by (induction ts) (auto simp: Let_def res_simps)
  show "\<not> is_panic (parse_sorts vs)"
    by (induction vs) (auto simp: res_simps *)
  show "\<not> is_panic (parse_filters q)"
    by (induction q rule: parse_filters.induct) (auto simp: res_simps parsers_no_panic)
qed

text \<open>
  \<open>ParseQuery\<close> panics exactly on invalid limits, whatever the request; and a
  rejection names a parameter the request carried, or a reserved one.
\<close>

theorem parse_query_rejections:
  "(is_panic (parse_query q l) \<longleftrightarrow> l_default_size l < 1 \<or> l_max_size l < l_default_size l) \<and>
   (parse_query q l = Fail e \<longrightarrow> qe_param e \<in> set reserved \<union> set (map fst q))"
proof
  show "is_panic (parse_query q l) \<longleftrightarrow> l_default_size l < 1 \<or> l_max_size l < l_default_size l"
    by (auto simp: parse_query_def res_simps parsers_no_panic lists_no_panic)
  have "qe_param e \<in> set reserved \<union> set (map fst q)" if "parse_query q l = Fail e"
    using that
    by (auto simp: parse_query_def res_simps reserved_def split: if_splits
        dest!: parameters_Fail parse_sorts_Fail parse_filters_Fail)
  then show "parse_query q l = Fail e \<longrightarrow> qe_param e \<in> set reserved \<union> set (map fst q)" by blast
qed

theorem parse_query_rejections_witness:
  "\<exists>e. parse_query [(''a]'', [''1''])] \<lparr>l_default_size = 20, l_max_size = 100, l_cursor = False\<rparr> = Fail e \<and>
     qe_param e \<in> set reserved \<union> {''a]''}"
proof -
  let ?q = "[(''a]'', [''1''])]" and ?l = "\<lparr>l_default_size = 20, l_max_size = 100, l_cursor = False\<rparr>"
  let ?e = "\<lparr>qe_param = ''a]'', qe_value = ''1'', qe_reason = ''unbalanced bracket in the parameter name''\<rparr>"
  have "parse_query ?q ?l = Fail ?e"
    by (simp add: parse_query_def parse_page_def parse_cursor_def parse_size_def values_get_def
        values_of_def reserved_def parse_filter_key_def query_reject_def)
  with parse_query_rejections [of ?q ?l ?e] show ?thesis by auto
qed

end
