(* ===== verification/Utf8.thy ===== *)
theory Utf8 imports GoStrings begin

text \<open>
  How Go reads a byte string as UTF-8, in \<open>range\<close> loops, in \<open>strings.ToValidUTF8\<close> and in the JSON
  encoder: a valid encoding is one rune, and any other byte is a rune of its own that decodes as
  U+FFFD. A chunk keeps the bytes it was read from.
\<close>

datatype chunk = Rune string | Bad char

definition byte_in :: "char \<Rightarrow> nat \<Rightarrow> nat \<Rightarrow> bool" where
  "byte_in c lo hi = (lo \<le> of_char c \<and> of_char c \<le> hi)"

text \<open>
  The length of the valid encoding a string starts with, by the table of \<open>utf8.DecodeRune\<close>:
  no overlong form, no surrogate, nothing above U+10FFFF.
\<close>

fun rune1 :: "string \<Rightarrow> bool" where
  "rune1 (a # _) = byte_in a 0 0x7F"
| "rune1 _ = False"

fun rune2 :: "string \<Rightarrow> bool" where
  "rune2 (a # b # _) = (byte_in a 0xC2 0xDF \<and> byte_in b 0x80 0xBF)"
| "rune2 _ = False"

fun rune3 :: "string \<Rightarrow> bool" where
  "rune3 (a # b # c # _) =
     (byte_in a 0xE0 0xEF \<and>
      byte_in b (if a = CHR 0xE0 then 0xA0 else 0x80) (if a = CHR 0xED then 0x9F else 0xBF) \<and>
      byte_in c 0x80 0xBF)"
| "rune3 _ = False"

fun rune4 :: "string \<Rightarrow> bool" where
  "rune4 (a # b # c # d # _) =
     (byte_in a 0xF0 0xF4 \<and>
      byte_in b (if a = CHR 0xF0 then 0x90 else 0x80) (if a = CHR 0xF4 then 0x8F else 0xBF) \<and>
      byte_in c 0x80 0xBF \<and> byte_in d 0x80 0xBF)"
| "rune4 _ = False"

definition rune_width :: "string \<Rightarrow> nat option" where
  "rune_width s =
     (if rune1 s then Some 1 else if rune2 s then Some 2 else if rune3 s then Some 3
      else if rune4 s then Some 4 else None)"

lemma rune1_D: "rune1 s \<Longrightarrow> 1 \<le> length s \<and> rune1 (take 1 s) \<and> rune1 (s @ t)"
  by (cases s rule: rune1.cases) auto

lemma rune2_D: "rune2 s \<Longrightarrow> 2 \<le> length s \<and> rune2 (take 2 s) \<and> rune2 (s @ t) \<and> \<not> rune1 (s @ t)"
  by (cases s rule: rune2.cases) (auto simp: byte_in_def numeral_2_eq_2)

lemma rune3_D:
  "rune3 s \<Longrightarrow> 3 \<le> length s \<and> rune3 (take 3 s) \<and> rune3 (s @ t) \<and> \<not> rune1 (s @ t) \<and> \<not> rune2 (s @ t)"
  by (cases s rule: rune3.cases) (auto simp: byte_in_def numeral_3_eq_3)

lemma rune4_D:
  "rune4 s \<Longrightarrow> 4 \<le> length s \<and> rune4 (take 4 s) \<and> rune4 (s @ t) \<and> \<not> rune1 (s @ t) \<and>
     \<not> rune2 (s @ t) \<and> \<not> rune3 (s @ t)"
  by (cases s rule: rune4.cases) (auto simp: byte_in_def eval_nat_numeral)

lemma rune_width_append: "rune_width s = Some n \<Longrightarrow> rune_width (s @ t) = Some n"
  using rune1_D [of s t] rune2_D [of s t] rune3_D [of s t] rune4_D [of s t]
  by (auto simp: rune_width_def split: if_splits)

lemma rune_width_Some: "rune_width s = Some n \<Longrightarrow> 0 < n \<and> n \<le> length s"
  using rune1_D [of s "[]"] rune2_D [of s "[]"] rune3_D [of s "[]"] rune4_D [of s "[]"]
  by (auto simp: rune_width_def split: if_splits)

lemma rune_width_take: "rune_width s = Some n \<Longrightarrow> rune_width (take n s) = Some n"
  using rune1_D [of s "[]"] rune2_D [of s "[]"] rune3_D [of s "[]"] rune4_D [of s "[]"]
    rune2_D [of "take 2 s" "[]"] rune3_D [of "take 3 s" "[]"] rune4_D [of "take 4 s" "[]"]
  by (auto simp: rune_width_def split: if_splits)

function utf8_chunks :: "string \<Rightarrow> chunk list" where
  "utf8_chunks s =
     (case s of
        [] \<Rightarrow> []
      | b # t \<Rightarrow>
          (case rune_width s of
             None \<Rightarrow> Bad b # utf8_chunks t
           | Some n \<Rightarrow> Rune (take n s) # utf8_chunks (drop n s)))"
  by pat_completeness auto
termination
  by (relation "measure length") (auto dest: rune_width_Some)

declare utf8_chunks.simps [simp del]

fun chunk_bytes :: "chunk \<Rightarrow> string" where
  "chunk_bytes (Rune s) = s"
| "chunk_bytes (Bad b) = [b]"

lemma utf8_chunks_nil [simp]: "utf8_chunks [] = []"
  by (simp add: utf8_chunks.simps)

lemma utf8_chunks_bytes: "concat (map chunk_bytes (utf8_chunks s)) = s"
proof (induction s rule: utf8_chunks.induct)
  case (1 s)
  then show ?case
    by (subst utf8_chunks.simps) (auto split: list.splits option.splits)
qed

lemma utf8_chunks_rune:
  assumes "rune_width r = Some (length r)"
  shows "utf8_chunks (r @ s) = Rune r # utf8_chunks s"
proof -
  have "r \<noteq> []" using rune_width_Some [OF assms] by auto
  then obtain b t where "r @ s = b # t" by (cases r) auto
  then have "utf8_chunks (r @ s) = Rune (take (length r) (r @ s)) # utf8_chunks (drop (length r) (r @ s))"
    using rune_width_append [OF assms, of s] by (subst utf8_chunks.simps) (simp only: list.case option.case)
  then show ?thesis by simp
qed

text \<open>\<open>strings.ToValidUTF8(s, r)\<close>: each run of bad bytes becomes one \<open>r\<close>.\<close>

fun replace_runs :: "string \<Rightarrow> bool \<Rightarrow> chunk list \<Rightarrow> string" where
  "replace_runs r in_run [] = []"
| "replace_runs r in_run (Rune s # cs) = s @ replace_runs r False cs"
| "replace_runs r in_run (Bad b # cs) = (if in_run then [] else r) @ replace_runs r True cs"

definition to_valid_utf8 :: "string \<Rightarrow> string \<Rightarrow> string" where
  "to_valid_utf8 s r = replace_runs r False (utf8_chunks s)"

definition valid_utf8 :: "string \<Rightarrow> bool" where
  "valid_utf8 s = list_all (\<lambda>c. case c of Rune _ \<Rightarrow> True | Bad _ \<Rightarrow> False) (utf8_chunks s)"

definition replacement_rune :: string where
  "replacement_rune = [CHR 0xEF, CHR 0xBF, CHR 0xBD]"

lemma utf8_chunks_widths:
  "Rune r \<in> set (utf8_chunks s) \<Longrightarrow> rune_width r = Some (length r)"
proof (induction s rule: utf8_chunks.induct)
  case (1 s)
  show ?case
  proof (cases s)
    case Nil
    then show ?thesis using "1.prems" by simp
  next
    case (Cons b t)
    show ?thesis
    proof (cases "rune_width s")
      case None
      then show ?thesis using "1.prems" "1.IH"(1) [OF Cons None] Cons
        by (subst (asm) utf8_chunks.simps) simp
    next
      case (Some n)
      have "rune_width (take n s) = Some (length (take n s))"
        using rune_width_take [OF Some] rune_width_Some [OF Some] by simp
      then show ?thesis
        using "1.prems" "1.IH"(2) [OF Cons Some] Some Cons
        by (subst (asm) utf8_chunks.simps) auto
    qed
  qed
qed

lemma valid_utf8_rune: "rune_width r = Some (length r) \<Longrightarrow> valid_utf8 (r @ s) = valid_utf8 s"
  by (simp add: valid_utf8_def utf8_chunks_rune)

lemma replace_runs_valid:
  assumes "rune_width r = Some (length r)" "\<And>s. Rune s \<in> set cs \<Longrightarrow> rune_width s = Some (length s)"
  shows "valid_utf8 (replace_runs r b cs)"
  using assms(2)
proof (induction cs arbitrary: b)
  case Nil
  then show ?case by (simp add: valid_utf8_def)
next
  case (Cons c cs)
  then show ?case
    using assms(1) by (cases c) (auto simp: valid_utf8_rune)
qed

lemma to_valid_utf8_valid: "valid_utf8 (to_valid_utf8 s replacement_rune)"
proof -
  have "rune_width replacement_rune = Some (length replacement_rune)"
    by (simp add: replacement_rune_def rune_width_def byte_in_def)
  then show ?thesis
    unfolding to_valid_utf8_def by (rule replace_runs_valid) (rule utf8_chunks_widths)
qed

lemma replace_runs_no_bad:
  "list_all (\<lambda>c. case c of Rune _ \<Rightarrow> True | Bad _ \<Rightarrow> False) cs \<Longrightarrow>
     replace_runs r b cs = concat (map chunk_bytes cs)"
  by (induction r b cs rule: replace_runs.induct) auto

lemma to_valid_utf8_id: "valid_utf8 s \<Longrightarrow> to_valid_utf8 s r = s"
  by (simp add: to_valid_utf8_def valid_utf8_def replace_runs_no_bad utf8_chunks_bytes)

text \<open>A string of ASCII bytes is its own list of one-byte runes.\<close>

lemma utf8_chunks_ascii:
  "list_all (\<lambda>c. byte_in c 0 0x7F) s \<Longrightarrow> utf8_chunks s = map (\<lambda>c. Rune [c]) s"
proof (induction s)
  case (Cons c s)
  then have "rune_width [c] = Some (length [c])" by (simp add: rune_width_def)
  from utf8_chunks_rune [OF this, of s] Cons show ?case by simp
qed simp

text \<open>Reading bytes as text, each bad byte as U+FFFD: what a \<open>range\<close> loop or a JSON round trip makes of them.\<close>

definition decode_string :: "string \<Rightarrow> string" where
  "decode_string s = concat (map (\<lambda>c. case c of Rune r \<Rightarrow> r | Bad _ \<Rightarrow> replacement_rune) (utf8_chunks s))"

lemma decode_string_valid [simp]: "valid_utf8 s \<Longrightarrow> decode_string s = s"
proof -
  assume "valid_utf8 s"
  then have "map (\<lambda>c. case c of Rune r \<Rightarrow> r | Bad _ \<Rightarrow> replacement_rune) (utf8_chunks s) = map chunk_bytes (utf8_chunks s)"
    by (auto simp: valid_utf8_def list_all_iff split: chunk.splits)
  then show ?thesis by (simp only: decode_string_def utf8_chunks_bytes)
qed

lemma valid_utf8_ascii: "list_all (\<lambda>c. byte_in c 0 0x7F) s \<Longrightarrow> valid_utf8 s"
  by (simp add: valid_utf8_def utf8_chunks_ascii list_all_iff)

end
