(* ===== verification/Float64.thy ===== *)
theory Float64 imports Complex_Main "HOL-Library.Log_Nat" begin

text \<open>
  IEEE 754 binary64 rounding, for the two places the sources use \<open>float64\<close>: the arithmetic of
  \<open>Transfer.Duration\<close>, and numbers decoded from JSON into \<open>any\<close>. A float64 is the rational it
  denotes; every operation rounds its exact result to 53 significant bits, ties to even. The values
  that occur lie far inside the exponent range (their magnitudes are between 2^-63 and 2^94), so
  there is neither overflow nor a subnormal number to model.
\<close>

section \<open>Rounding to an integer, ties to even\<close>

definition round_even :: "rat \<Rightarrow> int" where
  "round_even x =
     (let f = \<lfloor>x\<rfloor>; d = x - of_int f in
      if d < 1/2 then f else if 1/2 < d then f + 1 else if even f then f else f + 1)"

lemma round_even_of_int [simp]: "round_even (of_int n) = n"
  by (simp add: round_even_def)

lemma round_even_near: "\<bar>of_int (round_even x) - x\<bar> \<le> 1/2"
  using of_int_floor_le [of x] floor_correct [of x]
  by (auto simp: round_even_def Let_def)

lemma round_even_bounds: "\<lfloor>x\<rfloor> \<le> round_even x" "round_even x \<le> \<lfloor>x\<rfloor> + 1"
  by (auto simp: round_even_def Let_def)

lemma round_even_mono: "x \<le> y \<Longrightarrow> round_even x \<le> round_even y"
proof (cases "\<lfloor>x\<rfloor> = \<lfloor>y\<rfloor>")
  case True
  assume "x \<le> y"
  then have "x - of_int \<lfloor>x\<rfloor> \<le> y - of_int \<lfloor>y\<rfloor>" using True by simp
  then show ?thesis unfolding round_even_def Let_def True by auto
next
  case False
  assume "x \<le> y"
  then have "\<lfloor>x\<rfloor> \<le> \<lfloor>y\<rfloor>" by (rule floor_mono)
  with False have "\<lfloor>x\<rfloor> + 1 \<le> \<lfloor>y\<rfloor>" by simp
  then show ?thesis using round_even_bounds [of x] round_even_bounds [of y] by linarith
qed

lemma round_even_le_int: "x \<le> of_int n \<Longrightarrow> round_even x \<le> n"
  using round_even_mono [of x "of_int n"] by simp

lemma round_even_ge_int: "of_int n \<le> x \<Longrightarrow> n \<le> round_even x"
  using round_even_mono [of "of_int n" x] by simp

section \<open>The binary exponent\<close>

definition ilog2 :: "rat \<Rightarrow> int" where
  "ilog2 x =
     (let (p, q) = quotient_of x;
          k = int (floorlog 2 (nat p)) - int (floorlog 2 (nat q))
      in if 2 powi k \<le> x then k else k - 1)"

lemma floorlog_powi:
  assumes "0 < n"
  shows "2 powi (int (floorlog 2 n) - 1) \<le> (of_nat n :: rat)" "(of_nat n :: rat) < 2 powi int (floorlog 2 n)"
proof -
  have b: "2 ^ (floorlog 2 n - 1) \<le> n" "n < 2 ^ floorlog 2 n" "0 < floorlog 2 n"
    using floorlog_bounds [of n 2] assms by (auto simp: floorlog_def)
  have "(2 :: rat) powi (int (floorlog 2 n) - 1) = of_nat (2 ^ (floorlog 2 n - 1))"
    using b(3) by (simp add: power_int_def nat_diff_distrib)
  then show "2 powi (int (floorlog 2 n) - 1) \<le> (of_nat n :: rat)"
    using b(1) by (simp only: of_nat_le_iff)
  have "(2 :: rat) powi int (floorlog 2 n) = of_nat (2 ^ floorlog 2 n)" by simp
  then show "(of_nat n :: rat) < 2 powi int (floorlog 2 n)"
    using b(2) by (simp only: of_nat_less_iff)
qed

lemma ilog2_bounds:
  assumes "0 < x"
  shows "2 powi ilog2 x \<le> x" "x < 2 powi (ilog2 x + 1)"
proof -
  obtain p q where pq: "quotient_of x = (p, q)" by (cases "quotient_of x")
  then have q: "0 < q" and x: "x = of_int p / of_int q"
    using quotient_of_denom_pos quotient_of_div by blast+
  with assms have p: "0 < p" by (simp add: zero_less_divide_iff)
  define a b where "a = int (floorlog 2 (nat p))" and "b = int (floorlog 2 (nat q))"
  have P: "2 powi (a - 1) \<le> (of_int p :: rat)" "(of_int p :: rat) < 2 powi a"
    using floorlog_powi [of "nat p"] p by (simp_all add: a_def)
  have Q: "2 powi (b - 1) \<le> (of_int q :: rat)" "(of_int q :: rat) < 2 powi b"
    using floorlog_powi [of "nat q"] q by (simp_all add: b_def)
  have lo: "2 powi (a - b - 1) \<le> x"
  proof -
    have "2 powi (a - b - 1) * of_int q \<le> 2 powi (a - b - 1) * (2 powi b :: rat)"
      using Q by (intro mult_left_mono) auto
    also have "\<dots> = 2 powi (a - 1)" by (simp flip: power_int_add)
    also have "\<dots> \<le> of_int p" by (rule P)
    finally show ?thesis using q by (simp add: x pos_le_divide_eq)
  qed
  have hi: "x < 2 powi (a - b + 1)"
  proof -
    have "of_int p < (2 powi a :: rat)" by (rule P)
    also have "\<dots> = 2 powi (a - b + 1) * 2 powi (b - 1)" by (simp flip: power_int_add)
    also have "\<dots> \<le> 2 powi (a - b + 1) * of_int q"
      using Q by (intro mult_left_mono) auto
    finally show ?thesis using q by (simp add: x pos_divide_less_eq)
  qed
  have il: "ilog2 x = (if 2 powi (a - b) \<le> x then a - b else a - b - 1)"
    by (simp add: ilog2_def pq a_def b_def Let_def)
  show "2 powi ilog2 x \<le> x" using lo by (simp add: il)
  show "x < 2 powi (ilog2 x + 1)" using hi by (auto simp: il)
qed

lemma powi_le_iff: "(2 :: rat) powi a \<le> 2 powi b \<longleftrightarrow> a \<le> b"
  using power_int_strict_increasing [of b a "2 :: rat"] power_int_increasing [of a b "2 :: rat"]
  by (meson linorder_not_le numeral_One one_le_numeral order_less_irrefl order_le_less_trans
      semiring_norm(76) numeral_less_iff)

lemma ilog2_unique:
  assumes "2 powi k \<le> x" "x < 2 powi (k + 1)"
  shows "ilog2 x = k"
proof -
  have "0 < x" using assms(1) by (metis less_le_trans zero_less_numeral zero_less_power_int)
  then have "2 powi k < (2 :: rat) powi (ilog2 x + 1)" "2 powi ilog2 x < (2 :: rat) powi (k + 1)"
    using assms ilog2_bounds [of x] by (meson le_less_trans)+
  then have "k < ilog2 x + 1" "ilog2 x < k + 1"
    by (metis linorder_not_le powi_le_iff)+
  then show ?thesis by simp
qed

lemma ilog2_mono: "0 < x \<Longrightarrow> x \<le> y \<Longrightarrow> ilog2 x \<le> ilog2 y"
proof -
  assume a: "0 < x" "x \<le> y"
  then have "2 powi ilog2 x < (2 :: rat) powi (ilog2 y + 1)"
    using ilog2_bounds [of x] ilog2_bounds [of y] by linarith
  then show ?thesis by (metis linorder_not_le powi_le_iff zle_add1_eq_le)
qed

section \<open>Rounding to 53 bits\<close>

definition f64_pos :: "rat \<Rightarrow> rat" where
  "f64_pos x = (let e = ilog2 x - 52 in of_int (round_even (x / 2 powi e)) * 2 powi e)"

definition f64 :: "rat \<Rightarrow> rat" where
  "f64 x = (if x = 0 then 0 else if 0 < x then f64_pos x else - f64_pos (- x))"

lemma f64_pos_scaled:
  assumes "0 < x"
  shows "2 ^ 52 \<le> x / 2 powi (ilog2 x - 52)" "x / 2 powi (ilog2 x - 52) < 2 ^ 53"
proof -
  have e: "(2 :: rat) powi ilog2 x = 2 ^ 52 * 2 powi (ilog2 x - 52)"
    "(2 :: rat) powi (ilog2 x + 1) = 2 ^ 53 * 2 powi (ilog2 x - 52)"
    by (simp_all add: power_int_add power_int_diff)
  show "2 ^ 52 \<le> x / 2 powi (ilog2 x - 52)" "x / 2 powi (ilog2 x - 52) < 2 ^ 53"
    using ilog2_bounds [OF assms] by (simp_all add: e pos_le_divide_eq pos_divide_less_eq)
qed

text \<open>The rounded value stays in the closed binade of its argument.\<close>

lemma f64_pos_binade:
  assumes "0 < x"
  shows "2 powi ilog2 x \<le> f64_pos x" "f64_pos x \<le> 2 powi (ilog2 x + 1)"
proof -
  let ?e = "ilog2 x - 52"
  have e: "(2 :: rat) powi ilog2 x = of_int (2 ^ 52) * 2 powi ?e"
    "(2 :: rat) powi (ilog2 x + 1) = of_int (2 ^ 53) * 2 powi ?e"
    by (simp_all add: power_int_add power_int_diff)
  have "2 ^ 52 \<le> round_even (x / 2 powi ?e)"
    using f64_pos_scaled(1) [OF assms] by (intro round_even_ge_int) simp
  moreover have "round_even (x / 2 powi ?e) \<le> 2 ^ 53"
    using f64_pos_scaled(2) [OF assms] by (intro round_even_le_int) simp
  ultimately show "2 powi ilog2 x \<le> f64_pos x" "f64_pos x \<le> 2 powi (ilog2 x + 1)"
    unfolding e f64_pos_def Let_def by (intro mult_right_mono; simp only: of_int_le_iff; simp)+
qed

lemma f64_pos_mono:
  assumes "0 < x" "x \<le> y"
  shows "f64_pos x \<le> f64_pos y"
proof (cases "ilog2 x = ilog2 y")
  case True
  have "x / 2 powi (ilog2 y - 52) \<le> y / 2 powi (ilog2 y - 52)"
    using assms(2) by (intro divide_right_mono) auto
  then have "round_even (x / 2 powi (ilog2 y - 52)) \<le> round_even (y / 2 powi (ilog2 y - 52))"
    by (rule round_even_mono)
  then show ?thesis
    unfolding f64_pos_def True Let_def by (intro mult_right_mono) auto
next
  case False
  with ilog2_mono [OF assms] have "ilog2 x + 1 \<le> ilog2 y" by simp
  then have "(2 :: rat) powi (ilog2 x + 1) \<le> 2 powi ilog2 y" by (simp only: powi_le_iff)
  then show ?thesis
    using f64_pos_binade(2) [of x] f64_pos_binade(1) [of y] assms by linarith
qed

lemma f64_pos_pos: "0 < x \<Longrightarrow> 0 < f64_pos x"
  using f64_pos_binade(1) [of x] by (meson less_le_trans zero_less_numeral zero_less_power_int)

lemma f64_zero [simp]: "f64 0 = 0"
  by (simp add: f64_def)

lemma f64_mono: "x \<le> y \<Longrightarrow> f64 x \<le> f64 y"
  using f64_pos_mono [of x y] f64_pos_mono [of "- y" "- x"] f64_pos_pos [of y] f64_pos_pos [of "- x"]
  by (auto simp: f64_def)

lemma f64_nonneg: "0 \<le> x \<Longrightarrow> 0 \<le> f64 x"
  using f64_mono [of 0 x] by simp

lemma f64_minus: "f64 (- x) = - f64 x"
  by (auto simp: f64_def)

text \<open>An integer of at most 53 bits, scaled by a power of two, is represented exactly.\<close>

lemma f64_pos_exact:
  assumes "0 < m" "m < 2 ^ 53"
  shows "f64_pos (of_int m * 2 powi k) = of_int m * 2 powi k"
proof -
  let ?x = "of_int m * 2 powi k :: rat" and ?e = "ilog2 (of_int m * 2 powi k) - 52"
  have pos: "0 < ?x" using assms(1) by simp
  have "?e \<le> k"
  proof (rule ccontr)
    assume "\<not> ?e \<le> k"
    then have "k + 53 \<le> ilog2 ?x" by simp
    then have "(2 :: rat) powi (k + 53) \<le> ?x"
      using ilog2_bounds(1) [OF pos] by (meson order_trans powi_le_iff)
    then have "of_int (2 ^ 53) * (2 :: rat) powi k \<le> ?x" by (simp add: power_int_add)
    then have "(of_int (2 ^ 53) :: rat) \<le> of_int m" by (rule mult_right_le_imp_le) simp
    then show False using assms(2) by (simp only: of_int_le_iff)
  qed
  then have "(2 :: rat) powi (k - ?e) = of_int (2 ^ nat (k - ?e))" by (simp add: power_int_def)
  moreover have "?x / 2 powi ?e = of_int m * 2 powi (k - ?e)" by (simp add: power_int_diff)
  ultimately have "?x / 2 powi ?e = of_int (m * 2 ^ nat (k - ?e))" by simp
  then have "of_int (round_even (?x / 2 powi ?e)) = ?x / 2 powi ?e" by (simp only: round_even_of_int)
  then show ?thesis unfolding f64_pos_def Let_def by simp
qed

lemma f64_exact: "\<bar>m\<bar> < 2 ^ 53 \<Longrightarrow> f64 (of_int m) = of_int m"
  using f64_pos_exact [of m 0] f64_pos_exact [of "- m" 0] by (auto simp: f64_def)

lemma f64_pos_powi: "f64_pos (2 powi k) = 2 powi k"
  using f64_pos_exact [of 1 k] by simp

end
