(* ===== verification/Json.thy ===== *)
theory Json imports Utf8 Float64 begin

text \<open>
  JSON values, Go's \<open>map[string]any\<close>, and the text \<open>encoding/json\<close> writes. A \<open>json\<close> value is both
  a document and a Go value given to the encoder: \<open>JObj\<close> keeps its members in the order they are
  written (a struct's field order; a map's keys sorted), and \<open>JUnencodable\<close> stands for a Go value
  the encoder refuses (a channel, a function, a NaN). Numbers are integers: the sources put no
  other number into a document themselves.
\<close>

datatype json =
    JNull
  | JBool bool
  | JInt int
  | JStr string
  | JArr "json list"
  | JObj "(string \<times> json) list"
  | JUnencodable

section \<open>Maps from string to any\<close>

text \<open>A Go map is an association list with strictly increasing keys, the canonical form.\<close>

type_synonym obj = "(string \<times> json) list"

definition obj_wf :: "obj \<Rightarrow> bool" where
  "obj_wf m = sorted_wrt (<) (map fst m)"

fun obj_put :: "string \<Rightarrow> 'v \<Rightarrow> (string \<times> 'v) list \<Rightarrow> (string \<times> 'v) list" where
  "obj_put k v [] = [(k, v)]"
| "obj_put k v ((k', v') # m) =
     (if k < k' then (k, v) # (k', v') # m
      else if k = k' then (k, v) # m
      else (k', v') # obj_put k v m)"

text \<open>\<open>maps.Copy(dst, src)\<close>.\<close>

fun obj_copy :: "(string \<times> 'v) list \<Rightarrow> (string \<times> 'v) list \<Rightarrow> (string \<times> 'v) list" where
  "obj_copy dst [] = dst"
| "obj_copy dst ((k, v) # src) = obj_copy (obj_put k v dst) src"

text \<open>\<open>delete\<close> of every key a predicate holds for.\<close>

definition obj_drop :: "(string \<Rightarrow> bool) \<Rightarrow> (string \<times> 'v) list \<Rightarrow> (string \<times> 'v) list" where
  "obj_drop p m = filter (\<lambda>kv. \<not> p (fst kv)) m"

lemma map_of_obj_put [simp]: "map_of (obj_put k v m) = (map_of m)(k \<mapsto> v)"
  by (induction m) (auto simp: fun_eq_iff)

lemma set_obj_put [simp]: "fst ` set (obj_put k v m) = insert k (fst ` set m)"
  by (induction k v m rule: obj_put.induct) (simp_all add: insert_commute)

lemma obj_put_sorted: "sorted_wrt (<) (map fst m) \<Longrightarrow> sorted_wrt (<) (map fst (obj_put k v m))"
proof (induction m)
  case (Cons kv m)
  obtain k' v' where kv: "kv = (k', v')" by (cases kv)
  show ?case
    using Cons set_obj_put [of k v m] unfolding kv
    by (auto simp only: obj_put.simps list.map fst_conv sorted_wrt.simps set_map split: if_splits)
      (auto dest: order.strict_trans)
qed simp

lemma obj_copy_sorted:
  "sorted_wrt (<) (map fst dst) \<Longrightarrow> sorted_wrt (<) (map fst (obj_copy dst src))"
  by (induction dst src rule: obj_copy.induct) (auto simp: obj_put_sorted)

lemma map_of_obj_copy:
  "map_of (obj_copy dst src) k = (case map_of (rev src) k of None \<Rightarrow> map_of dst k | Some v \<Rightarrow> Some v)"
  by (induction dst src rule: obj_copy.induct) (auto simp: map_add_def split: option.splits)

lemma sorted_keys_distinct: "sorted_wrt (<) (map fst (m :: (string \<times> 'v) list)) \<Longrightarrow> distinct (map fst m)"
  by (simp add: strict_sorted_iff)

lemma map_of_rev_sorted:
  assumes "sorted_wrt (<) (map fst (m :: (string \<times> 'v) list))"
  shows "map_of (rev m) = map_of m"
proof -
  have "distinct (map fst m)" by (rule sorted_keys_distinct [OF assms])
  then show ?thesis by (intro map_of_inject_set [THEN iffD2]) (simp_all flip: rev_map)
qed

lemma obj_eqI:
  assumes "sorted_wrt (<) (map fst (m :: (string \<times> 'v) list))" "sorted_wrt (<) (map fst m')"
    "map_of m = map_of m'"
  shows "m = m'"
proof -
  have d: "distinct (map fst m)" "distinct (map fst m')"
    using assms(1,2) by (simp_all add: sorted_keys_distinct)
  have set_eq: "set m = set m'" using assms(3) by (simp add: map_of_inject_set [OF d])
  have "map fst m = map fst m'"
    using assms(1,2) set_eq by (intro sorted_distinct_set_unique) (simp_all add: strict_sorted_iff)
  moreover have "map snd m = map snd m'"
  proof -
    have "map snd x = map (the \<circ> map_of x) (map fst x)" if "distinct (map fst x)" for x :: "(string \<times> 'v) list"
      using that by (auto intro!: map_cong simp: map_of_is_SomeI)
    then show ?thesis using d assms(3) calculation by metis
  qed
  ultimately show ?thesis by (metis zip_map_fst_snd)
qed

lemma obj_drop_sorted: "sorted_wrt (<) (map fst m) \<Longrightarrow> sorted_wrt (<) (map fst (obj_drop p m))"
  by (induction m) (auto simp: obj_drop_def)

lemma map_of_obj_drop: "map_of (obj_drop p m) k = (if p k then None else map_of m k)"
  by (induction m) (auto simp: obj_drop_def)

section \<open>The encoder\<close>

definition hex_digit :: "nat \<Rightarrow> char" where
  "hex_digit n = (if n < 10 then char_of (48 + n) else char_of (87 + n))"

definition backslash :: char where "backslash = CHR 0x5C"

text \<open>How the encoder writes one byte or rune of a string, with HTML characters escaped.\<close>

definition json_escape :: "chunk \<Rightarrow> string" where
  "json_escape ch =
     (case ch of
        Bad _ \<Rightarrow> backslash # ''ufffd''
      | Rune r \<Rightarrow>
          (case r of
             [c] \<Rightarrow>
               if c = CHR 0x22 \<or> c = backslash then [backslash, c]
               else if c = CHR 0x08 then [backslash, CHR ''b'']
               else if c = CHR 0x0C then [backslash, CHR ''f'']
               else if c = CHR 0x0A then [backslash, CHR ''n'']
               else if c = CHR 0x0D then [backslash, CHR ''r'']
               else if c = CHR 0x09 then [backslash, CHR ''t'']
               else if of_char c < (0x20 :: nat) \<or> c \<in> {CHR ''<'', CHR ''>'', CHR ''&''}
               then backslash # ''u00'' @ [hex_digit (of_char c div 16), hex_digit (of_char c mod 16)]
               else [c]
           | _ \<Rightarrow>
               if r = [CHR 0xE2, CHR 0x80, CHR 0xA8] then backslash # ''u2028''
               else if r = [CHR 0xE2, CHR 0x80, CHR 0xA9] then backslash # ''u2029''
               else r))"

definition json_quote :: "string \<Rightarrow> string" where
  "json_quote s = CHR 0x22 # concat (map json_escape (utf8_chunks s)) @ [CHR 0x22]"

fun those_all :: "'a option list \<Rightarrow> 'a list option" where
  "those_all [] = Some []"
| "those_all (None # xs) = None"
| "those_all (Some x # xs) = map_option ((#) x) (those_all xs)"

fun encode_json :: "json \<Rightarrow> string option" where
  "encode_json JNull = Some ''null''"
| "encode_json (JBool b) = Some (if b then ''true'' else ''false'')"
| "encode_json (JInt n) = Some (show_int n)"
| "encode_json (JStr s) = Some (json_quote s)"
| "encode_json (JArr xs) =
     map_option (\<lambda>ts. ''['' @ join ts '','' @ '']'') (those_all (map encode_json xs))"
| "encode_json (JObj ms) =
     map_option (\<lambda>ts. ''{'' @ join ts '','' @ ''}'')
       (those_all (map (\<lambda>m. map_option (\<lambda>t. json_quote (fst m) @ '':'' @ t) (encode_json (snd m))) ms))"
| "encode_json JUnencodable = None"

fun encodable :: "json \<Rightarrow> bool" where
  "encodable (JArr xs) = list_all encodable xs"
| "encodable (JObj ms) = list_all (\<lambda>m. encodable (snd m)) ms"
| "encodable JUnencodable = False"
| "encodable _ = True"

lemma those_all_None: "those_all xs = None \<longleftrightarrow> None \<in> set xs"
  by (induction xs rule: those_all.induct) auto

text \<open>The encoder succeeds exactly on a value with nothing it refuses inside.\<close>

lemma None_in_map: "None \<in> set (map f xs) \<longleftrightarrow> (\<exists>x \<in> set xs. f x = None)"
  by force

lemma encode_json_None: "encode_json j = None \<longleftrightarrow> \<not> encodable j"
  by (induction j rule: encodable.induct)
    (auto simp: those_all_None None_in_map list_all_iff simp del: set_map)

section \<open>Decoding into any\<close>

text \<open>
  What \<open>json.Unmarshal\<close> stores in an \<open>any\<close>: an object becomes a map, whose last duplicate wins,
  a number becomes a float64, and a byte that is not UTF-8, which the encoder wrote as \<open>\ufffd\<close>,
  comes back as U+FFFD.
\<close>

fun to_any :: "json \<Rightarrow> json" where
  "to_any (JInt n) = JInt \<lfloor>f64 (of_int n)\<rfloor>"
| "to_any (JStr s) = JStr (decode_string s)"
| "to_any (JArr xs) = JArr (map to_any xs)"
| "to_any (JObj ms) = JObj (obj_copy [] (map (\<lambda>m. (decode_string (fst m), to_any (snd m))) ms))"
| "to_any j = j"

end
