(* ===== verification/Problem.thy ===== *)
theory Problem imports Json begin

text \<open>
  RFC 9457 problem documents (\<open>problem.go\<close>): the record, its JSON document and the way back, its
  text as an error, and the defaults applied before it is written. Writing one to a response is
  in the theory \<open>Write_Problem\<close>.
\<close>

section \<open>net/http status phrases\<close>

definition status_table :: "(int \<times> string) list" where
  "status_table =
     [(100, ''Continue''), (101, ''Switching Protocols''), (102, ''Processing''), (103, ''Early Hints''),
      (200, ''OK''), (201, ''Created''), (202, ''Accepted''), (203, ''Non-Authoritative Information''),
      (204, ''No Content''), (205, ''Reset Content''), (206, ''Partial Content''), (207, ''Multi-Status''),
      (208, ''Already Reported''), (226, ''IM Used''),
      (300, ''Multiple Choices''), (301, ''Moved Permanently''), (302, ''Found''), (303, ''See Other''),
      (304, ''Not Modified''), (305, ''Use Proxy''), (307, ''Temporary Redirect''), (308, ''Permanent Redirect''),
      (400, ''Bad Request''), (401, ''Unauthorized''), (402, ''Payment Required''), (403, ''Forbidden''),
      (404, ''Not Found''), (405, ''Method Not Allowed''), (406, ''Not Acceptable''),
      (407, ''Proxy Authentication Required''), (408, ''Request Timeout''), (409, ''Conflict''), (410, ''Gone''),
      (411, ''Length Required''), (412, ''Precondition Failed''), (413, ''Request Entity Too Large''),
      (414, ''Request URI Too Long''), (415, ''Unsupported Media Type''),
      (416, ''Requested Range Not Satisfiable''), (417, ''Expectation Failed''), (418, ''I'' @ [CHR 0x27] @ ''m a teapot''),
      (421, ''Misdirected Request''), (422, ''Unprocessable Entity''), (423, ''Locked''),
      (424, ''Failed Dependency''), (425, ''Too Early''), (426, ''Upgrade Required''),
      (428, ''Precondition Required''), (429, ''Too Many Requests''), (431, ''Request Header Fields Too Large''),
      (451, ''Unavailable For Legal Reasons''),
      (500, ''Internal Server Error''), (501, ''Not Implemented''), (502, ''Bad Gateway''),
      (503, ''Service Unavailable''), (504, ''Gateway Timeout''), (505, ''HTTP Version Not Supported''),
      (506, ''Variant Also Negotiates''), (507, ''Insufficient Storage''), (508, ''Loop Detected''),
      (510, ''Not Extended''), (511, ''Network Authentication Required'')]"

definition status_text :: "int \<Rightarrow> string" where
  "status_text code = (case map_of status_table code of None \<Rightarrow> [] | Some t \<Rightarrow> t)"

section \<open>The record\<close>

record problem =
  p_type :: string
  p_title :: string
  p_status :: int
  p_detail :: string
  p_instance :: string
  p_extras :: obj

definition problem_media_type :: string where
  "problem_media_type = ''application/problem+json''"

definition problem_type_blank :: string where
  "problem_type_blank = ''about:blank''"

text \<open>A Go composite literal with only a status (and, below, title and detail) set.\<close>

definition status_problem :: "int \<Rightarrow> problem" where
  "status_problem s =
     \<lparr>p_type = [], p_title = [], p_status = s, p_detail = [], p_instance = [], p_extras = []\<rparr>"

definition with_status :: "problem \<Rightarrow> problem" where
  "with_status p = (if p_status p = 0 then p\<lparr>p_status := 500\<rparr> else p)"

definition apply_defaults :: "problem \<Rightarrow> problem" where
  "apply_defaults p =
     (let p = (if p_status p = 0 then p\<lparr>p_status := 500\<rparr> else p);
          p = (if p_type p = [] then p\<lparr>p_type := problem_type_blank\<rparr> else p)
      in if p_title p = [] then p\<lparr>p_title := status_text (p_status p)\<rparr> else p)"

definition problem_error_text :: "problem \<Rightarrow> string" where
  "problem_error_text p =
     (let title = (if p_title p = [] then status_text (p_status p) else p_title p);
          line = show_int (p_status p) @ '' '' @ title
      in if p_detail p \<noteq> [] then line @ '': '' @ p_detail p else line)"

section \<open>The document\<close>

definition problem_members :: "problem \<Rightarrow> (string \<times> json) list" where
  "problem_members p =
     [(''type'', JStr (p_type p))] @
     (if p_title p = [] then [] else [(''title'', JStr (p_title p))]) @
     [(''status'', JInt (p_status p))] @
     (if p_detail p = [] then [] else [(''detail'', JStr (p_detail p))]) @
     (if p_instance p = [] then [] else [(''instance'', JStr (p_instance p))])"

text \<open>
  \<open>MarshalJSON\<close>. With extension members the standard ones pass through a document read back into a
  map. Its error, an extension member that cannot be encoded, is
  \<open>encode_json\<close>'s.
\<close>

definition read_back :: "(string \<times> json) list \<Rightarrow> obj" where
  "read_back ms = obj_copy [] (map (\<lambda>kv. (decode_string (fst kv), to_any (snd kv))) ms)"

definition marshal_problem :: "problem \<Rightarrow> json" where
  "marshal_problem p =
     (if p_extras p = [] then JObj (problem_members p)
      else JObj (obj_put ''status'' (JInt (p_status p))
             (obj_copy (read_back (problem_members p)) (p_extras p))))"

text \<open>
  \<open>strings.EqualFold\<close> against an ASCII name: besides the letters' other case, Unicode folding maps
  two non-ASCII runes to ASCII letters, the long s (U+017F) and the Kelvin sign (U+212A).
\<close>

definition lower_ascii :: "char \<Rightarrow> char" where
  "lower_ascii c = (if 65 \<le> (of_char c :: nat) \<and> of_char c \<le> (90 :: nat) then char_of (of_char c + 32 :: nat) else c)"

function fold_name :: "string \<Rightarrow> string" where
  "fold_name s =
     (case s of
        [] \<Rightarrow> []
      | a # t \<Rightarrow>
          if has_prefix s [CHR 0xC5, CHR 0xBF] then CHR ''s'' # fold_name (drop 2 s)
          else if has_prefix s [CHR 0xE2, CHR 0x84, CHR 0xAA] then CHR ''k'' # fold_name (drop 3 s)
          else lower_ascii a # fold_name t)"
  by pat_completeness auto
termination
  by (relation "measure length") auto

declare fold_name.simps [simp del]

definition standard_members :: "string list" where
  "standard_members = [''type'', ''title'', ''status'', ''detail'', ''instance'']"

definition is_standard :: "string \<Rightarrow> bool" where
  "is_standard k \<longleftrightarrow> fold_name k \<in> set standard_members"

text \<open>
  \<open>encoding/json\<close> stores one member into the struct \<open>problemMembers\<close>: the field whose name the key
  matches, case-insensitively; a null leaves the field alone; a value of another type is an error.
\<close>

definition set_string :: "(string \<Rightarrow> problem) \<Rightarrow> json \<Rightarrow> problem \<Rightarrow> problem option" where
  "set_string f v m = (case v of JStr s \<Rightarrow> Some (f (decode_string s)) | JNull \<Rightarrow> Some m | _ \<Rightarrow> None)"

definition set_member :: "string \<times> json \<Rightarrow> problem \<Rightarrow> problem option" where
  "set_member kv m =
     (let k = fold_name (decode_string (fst kv)); v = snd kv in
      if k = ''type'' then set_string (\<lambda>s. m\<lparr>p_type := s\<rparr>) v m
      else if k = ''title'' then set_string (\<lambda>s. m\<lparr>p_title := s\<rparr>) v m
      else if k = ''status'' then
        (case v of JInt n \<Rightarrow> if int64 n then Some (m\<lparr>p_status := n\<rparr>) else None
         | JNull \<Rightarrow> Some m | _ \<Rightarrow> None)
      else if k = ''detail'' then set_string (\<lambda>s. m\<lparr>p_detail := s\<rparr>) v m
      else if k = ''instance'' then set_string (\<lambda>s. m\<lparr>p_instance := s\<rparr>) v m
      else Some m)"

fun set_members :: "(string \<times> json) list \<Rightarrow> problem \<Rightarrow> problem option" where
  "set_members [] m = Some m"
| "set_members (kv # kvs) m = Option.bind (set_member kv m) (set_members kvs)"

text \<open>\<open>UnmarshalJSON\<close>: \<open>None\<close> is an error, which leaves the receiver as it was.\<close>

definition unmarshal_problem :: "json \<Rightarrow> problem option" where
  "unmarshal_problem j =
     (case j of
        JNull \<Rightarrow> Some (status_problem 0)
      | JObj ms \<Rightarrow>
          Option.bind (set_members ms (status_problem 0))
            (\<lambda>m. Some (m\<lparr>p_extras := obj_drop is_standard (read_back ms)\<rparr>))
      | _ \<Rightarrow> None)"

section \<open>What the document says\<close>

lemma map_of_members:
  "map_of (problem_members p) k =
     (if k = ''type'' then Some (JStr (p_type p))
      else if k = ''title'' then (if p_title p = [] then None else Some (JStr (p_title p)))
      else if k = ''status'' then Some (JInt (p_status p))
      else if k = ''detail'' then (if p_detail p = [] then None else Some (JStr (p_detail p)))
      else if k = ''instance'' then (if p_instance p = [] then None else Some (JStr (p_instance p)))
      else None)"
  by (simp add: problem_members_def)

lemma distinct_members: "distinct (map fst (problem_members p))"
  by (simp add: problem_members_def)

lemma map_of_rev_members: "map_of (rev (problem_members p)) = map_of (problem_members p)"
  by (rule map_of_inject_set [THEN iffD2]) (use distinct_members [of p] in \<open>simp_all flip: rev_map\<close>)

text \<open>A standard member as the document has it; next to extension members it was read back once.\<close>

definition standard_member :: "problem \<Rightarrow> string \<Rightarrow> json option" where
  "standard_member p k =
     (if p_extras p = [] then map_of (problem_members p) k else map_option to_any (map_of (problem_members p) k))"

lemma decode_names [simp]:
  "decode_string ''type'' = ''type''" "decode_string ''title'' = ''title''" "decode_string ''status'' = ''status''"
  "decode_string ''detail'' = ''detail''" "decode_string ''instance'' = ''instance''"
  by (simp_all add: valid_utf8_ascii byte_in_def)

lemma read_back_members:
  "map (\<lambda>kv. (decode_string (fst kv), to_any (snd kv))) (problem_members p) =
     map (\<lambda>kv. (fst kv, to_any (snd kv))) (problem_members p)"
  by (simp add: problem_members_def)

lemma map_of_map_snd: "map_of (map (\<lambda>kv. (fst kv, f (snd kv))) ms) k = map_option f (map_of ms k)"
  by (induction ms) auto

lemma map_of_rev_distinct: "distinct (map fst ms) \<Longrightarrow> map_of (rev ms) = map_of ms"
  by (intro map_of_inject_set [THEN iffD2]) (simp_all flip: rev_map)

lemma map_of_read_back:
  "map_of (read_back (problem_members p)) k = map_option to_any (map_of (problem_members p) k)"
proof -
  have "distinct (map fst (map (\<lambda>kv. (fst kv, to_any (snd kv))) (problem_members p)))"
    using distinct_members [of p] by (simp add: comp_def)
  then show ?thesis
    by (simp add: read_back_def read_back_members map_of_obj_copy map_of_rev_distinct map_of_map_snd
        split: option.split)
qed

fun json_members :: "json \<Rightarrow> (string \<times> json) list" where
  "json_members (JObj ms) = ms"
| "json_members _ = []"

lemma marshal_lookup:
  assumes "obj_wf (p_extras p)"
  shows "map_of (json_members (marshal_problem p)) k =
      (if k = ''status'' then Some (JInt (p_status p))
       else case map_of (p_extras p) k of Some v \<Rightarrow> Some v | None \<Rightarrow> standard_member p k)"
    and "distinct (map fst (json_members (marshal_problem p)))"
proof -
  let ?doc = "obj_copy (read_back (problem_members p)) (p_extras p)"
  have ex: "map_of (rev (p_extras p)) = map_of (p_extras p)"
    using assms by (intro map_of_rev_sorted) (simp add: obj_wf_def)
  have "sorted_wrt (<) (map fst (obj_put ''status'' (JInt (p_status p)) ?doc))"
    unfolding read_back_def by (intro obj_put_sorted obj_copy_sorted) simp
  then have "distinct (map fst (obj_put ''status'' (JInt (p_status p)) ?doc))"
    by (rule sorted_keys_distinct)
  then show "distinct (map fst (json_members (marshal_problem p)))"
    using distinct_members [of p] by (simp add: marshal_problem_def)
  show "map_of (json_members (marshal_problem p)) k =
      (if k = ''status'' then Some (JInt (p_status p))
       else case map_of (p_extras p) k of Some v \<Rightarrow> Some v | None \<Rightarrow> standard_member p k)"
    by (auto simp: marshal_problem_def standard_member_def map_of_members map_of_obj_copy ex map_of_read_back
        split: option.splits)
qed

text \<open>
  Each member of the marshaled document: status is always the problem's
  own status; any other member comes from the extension members when they carry it and from the
  standard members otherwise, so an extension overrides exactly the standard member of its name.
  No member appears twice.
\<close>

theorem marshal_problem_members:
  assumes "obj_wf (p_extras p)"
  shows "map_of (json_members (marshal_problem p)) k =
      (if k = ''status'' then Some (JInt (p_status p))
       else case map_of (p_extras p) k of Some v \<Rightarrow> Some v | None \<Rightarrow> standard_member p k) \<and>
    distinct (map fst (json_members (marshal_problem p)))"
  using marshal_lookup [OF assms] by blast

theorem marshal_problem_members_witness:
  "map_of (json_members (marshal_problem
     \<lparr>p_type = ''about:blank'', p_title = ''Conflict'', p_status = 409, p_detail = [], p_instance = [],
      p_extras = [(''status'', JInt 1), (''title'', JStr ''Busy'')]\<rparr>)) ''title'' = Some (JStr ''Busy'')"
  by (subst marshal_problem_members [THEN conjunct1]) (simp_all add: obj_wf_def)

section \<open>Round trip\<close>

lemma fold_standard [simp]:
  "fold_name ''type'' = ''type''" "fold_name ''title'' = ''title''" "fold_name ''status'' = ''status''"
  "fold_name ''detail'' = ''detail''" "fold_name ''instance'' = ''instance''"
  by (simp_all add: fold_name.simps lower_ascii_def)

text \<open>A member the struct decoder takes as it is: not a standard name, or one of the right type.\<close>

definition well_typed :: "string \<times> json \<Rightarrow> bool" where
  "well_typed kv \<longleftrightarrow>
     \<not> is_standard (fst kv) \<or>
     (fst kv \<in> {''type'', ''title'', ''detail'', ''instance''} \<and> (\<exists>s. snd kv = JStr s \<and> valid_utf8 s)) \<or>
     (fst kv = ''status'' \<and> (\<exists>n. snd kv = JInt n \<and> int64 n))"

definition string_member :: "(string \<times> json) list \<Rightarrow> string \<Rightarrow> string \<Rightarrow> string" where
  "string_member ms k d = (case map_of ms k of Some (JStr s) \<Rightarrow> s | _ \<Rightarrow> d)"

definition int_member :: "(string \<times> json) list \<Rightarrow> string \<Rightarrow> int \<Rightarrow> int" where
  "int_member ms k d = (case map_of ms k of Some (JInt n) \<Rightarrow> n | _ \<Rightarrow> d)"

definition read_members :: "(string \<times> json) list \<Rightarrow> problem \<Rightarrow> problem" where
  "read_members ms m =
     m\<lparr>p_type := string_member ms ''type'' (p_type m), p_title := string_member ms ''title'' (p_title m),
       p_status := int_member ms ''status'' (p_status m),
       p_detail := string_member ms ''detail'' (p_detail m),
       p_instance := string_member ms ''instance'' (p_instance m)\<rparr>"

lemma member_Cons:
  "string_member ((k, JStr s) # ms) k' d = (if k' = k then s else string_member ms k' d)"
  "int_member ((k, JInt n) # ms) k' d' = (if k' = k then n else int_member ms k' d')"
  "k' \<noteq> k \<Longrightarrow> string_member ((k, v) # ms) k' d = string_member ms k' d"
  "k' \<noteq> k \<Longrightarrow> int_member ((k, v) # ms) k' d' = int_member ms k' d'"
  by (simp_all add: string_member_def int_member_def)

lemma member_absent:
  "map_of ms k = None \<Longrightarrow> string_member ms k d = d" "map_of ms k = None \<Longrightarrow> int_member ms k d' = d'"
  by (simp_all add: string_member_def int_member_def)

lemma member_names_standard:
  "is_standard ''type''" "is_standard ''title''" "is_standard ''status''" "is_standard ''detail''"
  "is_standard ''instance''"
  by (simp_all add: is_standard_def standard_members_def)

lemma not_standard_neq:
  assumes "\<not> is_standard k"
  shows "''type'' \<noteq> k" "''title'' \<noteq> k" "''status'' \<noteq> k" "''detail'' \<noteq> k" "''instance'' \<noteq> k"
  using assms member_names_standard by blast+

lemma set_member_other: "valid_utf8 k \<Longrightarrow> \<not> is_standard k \<Longrightarrow> set_member (k, v) m = Some m"
  by (simp add: set_member_def is_standard_def standard_members_def)

lemma set_member_standard:
  "valid_utf8 s \<Longrightarrow> set_member (''type'', JStr s) m = Some (m\<lparr>p_type := s\<rparr>)"
  "valid_utf8 s \<Longrightarrow> set_member (''title'', JStr s) m = Some (m\<lparr>p_title := s\<rparr>)"
  "int64 n \<Longrightarrow> set_member (''status'', JInt n) m = Some (m\<lparr>p_status := n\<rparr>)"
  "valid_utf8 s \<Longrightarrow> set_member (''detail'', JStr s) m = Some (m\<lparr>p_detail := s\<rparr>)"
  "valid_utf8 s \<Longrightarrow> set_member (''instance'', JStr s) m = Some (m\<lparr>p_instance := s\<rparr>)"
  by (simp_all add: set_member_def set_string_def)

lemma set_members_read:
  "distinct (map fst ms) \<Longrightarrow> \<forall>kv \<in> set ms. well_typed kv \<and> valid_utf8 (fst kv) \<Longrightarrow> set_members ms m = Some (read_members ms m)"
proof (induction ms arbitrary: m)
  case Nil
  then show ?case by (simp add: read_members_def string_member_def int_member_def)
next
  case (Cons kv ms)
  obtain k v where kv: "kv = (k, v)" by (cases kv)
  have IH: "set_members ms m' = Some (read_members ms m')" for m'
    using Cons by simp
  have absent: "map_of ms k = None" using Cons.prems(1) by (simp add: kv map_of_eq_None_iff)
  have k: "valid_utf8 k" and "well_typed (k, v)" using Cons.prems(2) by (simp_all add: kv)
  then consider "\<not> is_standard k" | s where "k = ''type''" "v = JStr s" "valid_utf8 s" | s where "k = ''title''" "v = JStr s" "valid_utf8 s"
    | s where "k = ''detail''" "v = JStr s" "valid_utf8 s" | s where "k = ''instance''" "v = JStr s" "valid_utf8 s"
    | n where "k = ''status''" "v = JInt n" "int64 n"
    by (auto simp: well_typed_def)
  then show ?case
  proof cases
    case 1
    then show ?thesis
      using IH k by (simp add: kv set_member_other read_members_def member_Cons not_standard_neq)
  qed (use IH absent in \<open>simp_all add: kv set_member_standard read_members_def member_Cons member_absent\<close>)
qed

text \<open>
  What survives a trip through the wire: text that is UTF-8, and extension members no standard name
  matches, with values JSON represents exactly.
\<close>

definition wire_stable :: "problem \<Rightarrow> bool" where
  "wire_stable p \<longleftrightarrow>
     obj_wf (p_extras p) \<and> int64 (p_status p) \<and>
     valid_utf8 (p_type p) \<and> valid_utf8 (p_title p) \<and> valid_utf8 (p_detail p) \<and> valid_utf8 (p_instance p) \<and>
     (\<forall>kv \<in> set (p_extras p). \<not> is_standard (fst kv) \<and> valid_utf8 (fst kv) \<and> to_any (snd kv) = snd kv)"

lemma marshal_is_object: "marshal_problem p = JObj (json_members (marshal_problem p))"
  by (simp add: marshal_problem_def)

lemma extras_standard_None:
  "wire_stable p \<Longrightarrow> is_standard k \<Longrightarrow> map_of (p_extras p) k = None"
  by (auto simp: wire_stable_def map_of_eq_None_iff)

lemma standard_member_stable:
  "wire_stable p \<Longrightarrow> k \<noteq> ''status'' \<Longrightarrow> standard_member p k = map_of (problem_members p) k"
  by (simp add: standard_member_def map_of_members wire_stable_def)

lemma members_well_typed:
  "wire_stable p \<Longrightarrow> map_of (problem_members p) k = Some v \<Longrightarrow> well_typed (k, v)"
  unfolding map_of_members well_typed_def wire_stable_def by (auto split: if_splits)

lemma marshal_well_typed:
  assumes "wire_stable p" "kv \<in> set (json_members (marshal_problem p))"
  shows "well_typed kv"
proof -
  obtain k v where kv: "kv = (k, v)" by (cases kv)
  have wf: "obj_wf (p_extras p)" "int64 (p_status p)" using assms(1) by (simp_all add: wire_stable_def)
  have v: "map_of (json_members (marshal_problem p)) k = Some v"
    using assms(2) marshal_lookup(2) [OF wf(1)] by (simp add: kv)
  show ?thesis
  proof (cases "is_standard k")
    case True
    have "map_of (problem_members p) ''status'' = Some (JInt (p_status p))"
      by (simp add: map_of_members)
    then have "map_of (problem_members p) k = Some v"
      using v extras_standard_None [OF assms(1) True] standard_member_stable [OF assms(1)]
      by (simp add: marshal_lookup(1) [OF wf(1)] split: if_splits)
    then show ?thesis using members_well_typed [OF assms(1)] by (simp add: kv)
  next
    case False
    then show ?thesis by (simp add: well_typed_def kv)
  qed
qed

lemma marshal_keys_valid:
  assumes "wire_stable p" "kv \<in> set (json_members (marshal_problem p))"
  shows "valid_utf8 (fst kv)"
proof -
  obtain k v where kv: "kv = (k, v)" by (cases kv)
  have wf: "obj_wf (p_extras p)" using assms(1) by (simp add: wire_stable_def)
  have v: "map_of (json_members (marshal_problem p)) k = Some v"
    using assms(2) marshal_lookup(2) [OF wf] by (simp add: kv)
  have names: "valid_utf8 k'" if "k' \<in> {''type'', ''title'', ''status'', ''detail'', ''instance''}" for k'
    using that by (auto intro!: valid_utf8_ascii simp: byte_in_def)
  consider "k = ''status''" | v' where "map_of (p_extras p) k = Some v'"
    | "k \<noteq> ''status''" "map_of (problem_members p) k = Some v"
    using v standard_member_stable [OF assms(1), of k]
    by (auto simp: marshal_lookup(1) [OF wf] split: if_splits option.splits)
  then show ?thesis
  proof cases
    case 2
    then show ?thesis using assms(1) by (auto simp: kv wire_stable_def dest!: map_of_SomeD)
  qed (auto simp: kv map_of_members names split: if_splits)
qed

lemma marshal_members_decoded:
  "wire_stable p \<Longrightarrow>
     map (\<lambda>kv. (decode_string (fst kv), f (snd kv))) (json_members (marshal_problem p)) =
     map (\<lambda>kv. (fst kv, f (snd kv))) (json_members (marshal_problem p))"
  using marshal_keys_valid by (auto intro!: map_cong)

lemma marshal_extras:
  assumes "wire_stable p"
  shows "obj_drop is_standard (read_back (json_members (marshal_problem p))) = p_extras p"
  unfolding read_back_def marshal_members_decoded [OF assms]
proof (rule obj_eqI)
  let ?ms = "map (\<lambda>kv. (fst kv, to_any (snd kv))) (json_members (marshal_problem p))"
  have wf: "obj_wf (p_extras p)" using assms by (simp add: wire_stable_def)
  show "sorted_wrt (<) (map fst (obj_drop is_standard (obj_copy [] ?ms)))"
    by (intro obj_drop_sorted obj_copy_sorted) simp
  show "sorted_wrt (<) (map fst (p_extras p))" using wf by (simp add: obj_wf_def)
  have d: "distinct (map fst ?ms)" using marshal_lookup(2) [OF wf] by (simp add: comp_def)
  show "map_of (obj_drop is_standard (obj_copy [] ?ms)) = map_of (p_extras p)"
  proof
    fix k
    show "map_of (obj_drop is_standard (obj_copy [] ?ms)) k = map_of (p_extras p) k"
    proof (cases "is_standard k")
      case True
      then show ?thesis using extras_standard_None [OF assms True] by (simp add: map_of_obj_drop)
    next
      case False
      then have "k \<noteq> ''status''" "map_of (problem_members p) k = None"
        using member_names_standard by (auto simp: map_of_members)
      then have "map_of ?ms k = map_option to_any (map_of (p_extras p) k)"
        by (simp add: map_of_map_snd marshal_lookup(1) [OF wf] standard_member_def split: option.splits)
      also have "\<dots> = map_of (p_extras p) k"
        using assms by (cases "map_of (p_extras p) k") (auto simp: wire_stable_def dest!: map_of_SomeD)
      finally show ?thesis
        using False by (simp add: map_of_obj_drop map_of_obj_copy map_of_rev_distinct [OF d] split: option.splits)
    qed
  qed
qed

lemma read_marshal:
  assumes "wire_stable p"
  shows "read_members (json_members (marshal_problem p)) (status_problem 0) = p\<lparr>p_extras := []\<rparr>"
proof -
  have wf: "obj_wf (p_extras p)" using assms by (simp add: wire_stable_def)
  show ?thesis
    using member_names_standard [THEN extras_standard_None [OF assms]] standard_member_stable [OF assms]
    by (simp add: read_members_def status_problem_def string_member_def int_member_def
        marshal_lookup(1) [OF wf] map_of_members)
qed

lemma problem_roundtrip_value:
  assumes "wire_stable p"
  shows "unmarshal_problem (marshal_problem p) = Some p"
proof -
  have wf: "obj_wf (p_extras p)" using assms by (simp add: wire_stable_def)
  have "set_members (json_members (marshal_problem p)) (status_problem 0) = Some (p\<lparr>p_extras := []\<rparr>)"
    using marshal_lookup(2) [OF wf] marshal_well_typed [OF assms] marshal_keys_valid [OF assms] read_marshal [OF assms]
    by (simp add: set_members_read)
  then show ?thesis
    using marshal_extras [OF assms]
    by (subst marshal_is_object) (simp add: unmarshal_problem_def)
qed



end
