(* ===== verification/Errors.thy ===== *)
theory Errors imports Query Problem begin

text \<open>
  Go errors (\<open>errors.go\<close> and the standard errors the sources inspect): the package's own five
  error types with their text and status, a \<open>Problem\<close> used as an error, and errors that wrap
  others, through which \<open>errors.AsType\<close> and \<open>errors.Is\<close> search.
\<close>

section \<open>The package's own errors\<close>

record precondition_error =
  pe_missing :: bool
  pe_value :: string

record body_error =
  be_too_large :: bool
  be_reason :: string

record upload_error =
  ue_header :: string
  ue_too_large :: bool
  ue_reason :: string

record path_error =
  pa_name :: string
  pa_value :: string

definition query_status :: "query_error \<Rightarrow> int" where
  "query_status e = 400"

definition precondition_status :: "precondition_error \<Rightarrow> int" where
  "precondition_status e = (if pe_missing e then 428 else 400)"

definition body_status :: "body_error \<Rightarrow> int" where
  "body_status e = (if be_too_large e then 413 else 400)"

definition upload_status :: "upload_error \<Rightarrow> int" where
  "upload_status e =
     (if ue_too_large e then 413 else if ue_header e = ''Content-Length'' then 411 else 415)"

definition path_status :: "path_error \<Rightarrow> int" where
  "path_status e = 400"

text \<open>
  The \<open>%q\<close> verb, \<open>strconv.Quote\<close>. A rune outside ASCII is taken to be printable, so it is kept;
  Go would write the few that are not as \<open>\u\<close> escapes.
\<close>

definition quote_chunk :: "chunk \<Rightarrow> string" where
  "quote_chunk ch =
     (case ch of
        Bad b \<Rightarrow> backslash # CHR ''x'' # [hex_digit (of_char b div 16), hex_digit (of_char b mod 16)]
      | Rune r \<Rightarrow>
          (case r of
             [c] \<Rightarrow>
               if c = CHR 0x22 \<or> c = backslash then [backslash, c]
               else if c = CHR 0x07 then [backslash, CHR ''a'']
               else if c = CHR 0x08 then [backslash, CHR ''b'']
               else if c = CHR 0x0C then [backslash, CHR ''f'']
               else if c = CHR 0x0A then [backslash, CHR ''n'']
               else if c = CHR 0x0D then [backslash, CHR ''r'']
               else if c = CHR 0x09 then [backslash, CHR ''t'']
               else if c = CHR 0x0B then [backslash, CHR ''v'']
               else if of_char c < (0x20 :: nat) \<or> c = CHR 0x7F
               then backslash # CHR ''x'' # [hex_digit (of_char c div 16), hex_digit (of_char c mod 16)]
               else [c]
           | _ \<Rightarrow> r))"

definition go_quote :: "string \<Rightarrow> string" where
  "go_quote s = CHR 0x22 # concat (map quote_chunk (utf8_chunks s)) @ [CHR 0x22]"

definition query_text :: "query_error \<Rightarrow> string" where
  "query_text e = ''query '' @ qe_param e @ ''='' @ go_quote (qe_value e) @ '': '' @ qe_reason e"

definition precondition_text :: "precondition_error \<Rightarrow> string" where
  "precondition_text e =
     (if pe_missing e then ''the request requires an If-Match header''
      else ''If-Match '' @ go_quote (pe_value e) @
        '': must be one entity-tag containing an integer version, like '' @ [CHR 0x22, CHR ''3'', CHR 0x22])"

definition body_text :: "body_error \<Rightarrow> string" where
  "body_text e = ''body: '' @ be_reason e"

definition upload_text :: "upload_error \<Rightarrow> string" where
  "upload_text e = ''upload: '' @ ue_reason e"

definition path_text :: "path_error \<Rightarrow> string" where
  "path_text e = ''path '' @ pa_name e @ ''='' @ go_quote (pa_value e) @ '': must be a UUID''"

section \<open>Error values\<close>

text \<open>
  \<open>Wrapped\<close> is an error whose text is given and whose \<open>Unwrap\<close> returns one error; \<open>Joined\<close> is
  \<open>errors.Join\<close>, whose \<open>Unwrap\<close> returns several. \<open>ProblemPtr None\<close> is a nil \<open>*Problem\<close> stored in
  a non-nil error. \<open>Text\<close> is any other error.
\<close>

datatype err =
    QueryErr query_error
  | PreconditionErr precondition_error
  | BodyErr body_error
  | UploadErr upload_error
  | PathErr path_error
  | ProblemVal problem
  | ProblemPtr "problem option"
  | MaxBytesErr int
  | EOF
  | SyntaxErr string
  | Canceled
  | NotSupported
  | Text string
  | Wrapped string err
  | Joined "err list"

fun error_text :: "err \<Rightarrow> string" where
  "error_text (QueryErr e) = query_text e"
| "error_text (PreconditionErr e) = precondition_text e"
| "error_text (BodyErr e) = body_text e"
| "error_text (UploadErr e) = upload_text e"
| "error_text (PathErr e) = path_text e"
| "error_text (ProblemVal p) = problem_error_text p"
| "error_text (ProblemPtr None) = ''<nil>''"
| "error_text (ProblemPtr (Some p)) = problem_error_text p"
| "error_text (MaxBytesErr n) = ''http: request body too large''"
| "error_text EOF = ''EOF''"
| "error_text (SyntaxErr m) = m"
| "error_text Canceled = ''context canceled''"
| "error_text NotSupported = ''feature not supported''"
| "error_text (Text m) = m"
| "error_text (Wrapped m e) = m"
| "error_text (Joined es) = join (map error_text es) [CHR 0x0A]"

text \<open>
  A depth-first search of an error's tree, as \<open>errors.AsType\<close> does it: the error itself, then
  what it wraps, in order.
\<close>

fun first_some :: "'a option list \<Rightarrow> 'a option" where
  "first_some [] = None"
| "first_some (Some a # xs) = Some a"
| "first_some (None # xs) = first_some xs"

fun own_status :: "err \<Rightarrow> int option" where
  "own_status (QueryErr e) = Some (query_status e)"
| "own_status (PreconditionErr e) = Some (precondition_status e)"
| "own_status (BodyErr e) = Some (body_status e)"
| "own_status (UploadErr e) = Some (upload_status e)"
| "own_status (PathErr e) = Some (path_status e)"
| "own_status (Wrapped m e) = own_status e"
| "own_status (Joined es) = first_some (map own_status es)"
| "own_status _ = None"

fun as_max_bytes :: "err \<Rightarrow> int option" where
  "as_max_bytes (MaxBytesErr n) = Some n"
| "as_max_bytes (Wrapped m e) = as_max_bytes e"
| "as_max_bytes (Joined es) = first_some (map as_max_bytes es)"
| "as_max_bytes _ = None"

fun as_syntax :: "err \<Rightarrow> string option" where
  "as_syntax (SyntaxErr m) = Some m"
| "as_syntax (Wrapped m e) = as_syntax e"
| "as_syntax (Joined es) = first_some (map as_syntax es)"
| "as_syntax _ = None"

text \<open>\<open>errors.Is\<close> against one of the sentinels \<open>io.EOF\<close>, \<open>context.Canceled\<close> and \<open>http.ErrNotSupported\<close>.\<close>

fun error_is :: "err \<Rightarrow> err \<Rightarrow> bool" where
  "error_is (Wrapped m e) t \<longleftrightarrow> error_is e t"
| "error_is (Joined es) t \<longleftrightarrow> list_ex (\<lambda>e. error_is e t) es"
| "error_is e t \<longleftrightarrow> e = t"

lemma first_some_in: "first_some xs = Some a \<Longrightarrow> Some a \<in> set xs"
  by (induction xs rule: first_some.induct) auto

text \<open>The built-in statuses are the five request-shaped ones.\<close>

definition request_statuses :: "int set" where
  "request_statuses = {400, 411, 413, 415, 428}"

lemma own_status_request: "own_status e = Some s \<Longrightarrow> s \<in> request_statuses"
proof (induction e arbitrary: s rule: own_status.induct)
  case (7 es)
  then show ?case by (auto dest!: first_some_in)
qed (auto simp: request_statuses_def query_status_def precondition_status_def body_status_def
    upload_status_def path_status_def)

end
