(* ===== verification/World.thy ===== *)
theory World imports Errors begin

text \<open>
  The state a request is served in, and the standard library operations on it. Go handlers work by
  effect: they write to a response, read and derive requests, log, and panic. A handler is a
  function from the state to an outcome and the new state. Requests and recorders are shared
  through pointers, so both live in the state at addresses, and what one layer does to a shared
  object is seen by the others.
\<close>

section \<open>Headers\<close>

text \<open>
  An \<open>http.Header\<close> maps a canonical name to its values; no values means the name is absent.
  \<open>canonical_key\<close> is \<open>http.CanonicalHeaderKey\<close>: a name made of token bytes has the first letter
  of each hyphen-separated part in upper case and the rest in lower case, any other is unchanged.
\<close>

type_synonym header = "string \<Rightarrow> string list"

definition upper_ascii :: "char \<Rightarrow> char" where
  "upper_ascii c = (if 97 \<le> (of_char c :: nat) \<and> of_char c \<le> (122 :: nat) then char_of (of_char c - 32 :: nat) else c)"

definition token_byte :: "char \<Rightarrow> bool" where
  "token_byte c \<longleftrightarrow>
     is_digit c \<or> (65 \<le> (of_char c :: nat) \<and> of_char c \<le> (90 :: nat)) \<or>
     (97 \<le> (of_char c :: nat) \<and> of_char c \<le> (122 :: nat)) \<or>
     c \<in> set ''!#$%&*+-.^_`|~'' \<or> c = CHR 0x27"

fun canonical_parts :: "bool \<Rightarrow> string \<Rightarrow> string" where
  "canonical_parts up [] = []"
| "canonical_parts up (c # s) =
     (if up then upper_ascii c else lower_ascii c) # canonical_parts (c = CHR ''-'') s"

definition canonical_key :: "string \<Rightarrow> string" where
  "canonical_key k = (if list_all token_byte k then canonical_parts True k else k)"

definition header_get :: "header \<Rightarrow> string \<Rightarrow> string" where
  "header_get h k = (case h (canonical_key k) of [] \<Rightarrow> [] | v # _ \<Rightarrow> v)"

definition header_values :: "header \<Rightarrow> string \<Rightarrow> string list" where
  "header_values h k = h (canonical_key k)"

definition header_set :: "string \<Rightarrow> string \<Rightarrow> header \<Rightarrow> header" where
  "header_set k v h = h(canonical_key k := [v])"

definition header_del :: "string \<Rightarrow> header \<Rightarrow> header" where
  "header_del k h = h(canonical_key k := [])"

lemma header_get_set [simp]:
  "header_get (header_set k v h) k' = (if canonical_key k' = canonical_key k then v else header_get h k')"
  by (simp add: header_get_def header_set_def)

lemma header_get_del [simp]:
  "header_get (header_del k h) k' = (if canonical_key k' = canonical_key k then [] else header_get h k')"
  by (simp add: header_get_def header_del_def)

text \<open>The header names the sources use, in canonical form.\<close>

lemma canonical_names [simp]:
  "canonical_key ''Content-Type'' = ''Content-Type''"
  "canonical_key ''Content-Length'' = ''Content-Length''"
  "canonical_key ''If-Match'' = ''If-Match''"
  "canonical_key ''If-None-Match'' = ''If-None-Match''"
  "canonical_key ''If-Modified-Since'' = ''If-Modified-Since''"
  "canonical_key ''ETag'' = ''Etag''"
  "canonical_key ''Etag'' = ''Etag''"
  "canonical_key ''Last-Modified'' = ''Last-Modified''"
  "canonical_key ''Cache-Control'' = ''Cache-Control''"
  "canonical_key ''Content-Disposition'' = ''Content-Disposition''"
  "canonical_key ''Content-Encoding'' = ''Content-Encoding''"
  "canonical_key ''Content-Range'' = ''Content-Range''"
  "canonical_key ''Expires'' = ''Expires''"
  "canonical_key ''X-Content-Type-Options'' = ''X-Content-Type-Options''"
  "canonical_key ''Connection'' = ''Connection''"
  "canonical_key ''Allow'' = ''Allow''"
  "canonical_key ''X-Request-ID'' = ''X-Request-Id''"
  "canonical_key ''X-Request-Id'' = ''X-Request-Id''"
  "canonical_key ''Retry-After'' = ''Retry-After''"
  "canonical_key ''Location'' = ''Location''"
  by code_simp+

section \<open>Requests\<close>

text \<open>A context, as far as the sources use it: the correlation id, the deadline, and \<open>Err()\<close>.\<close>

record ctx =
  cx_request_id :: "string option"
  cx_deadline :: "int option"
  cx_err :: "err option"

text \<open>A body delivers its bytes and then ends with \<open>io.EOF\<close> or another error.\<close>

record body =
  b_data :: string
  b_end :: err

record request =
  r_method :: string
  r_path :: string
  r_raw_path :: string
  r_uri :: string
  r_proto :: "nat \<times> nat"
  r_header :: header
  r_remote :: string
  r_length :: int
  r_body :: body
  r_pattern :: string
  r_values :: "(string \<times> string) list"
  r_ctx :: ctx

text \<open>
  \<open>http.MaxBytesReader\<close>: a body longer than the limit delivers that many bytes and then fails with
  a \<open>*http.MaxBytesError\<close>; a negative limit counts as 0.
\<close>

definition max_bytes_reader :: "int \<Rightarrow> body \<Rightarrow> body" where
  "max_bytes_reader n b =
     (if int (length (b_data b)) > max n 0
      then \<lparr>b_data = take (nat n) (b_data b), b_end = MaxBytesErr (max n 0)\<rparr>
      else b)"

section \<open>The state\<close>

text \<open>
  A \<open>base\<close> writer is \<open>net/http\<close>'s own response or a \<open>missRecorder\<close>; a \<open>writer\<close> is a base writer or
  a \<open>*Recorder\<close>. A \<open>Recorder\<close> is only ever made around a writer that is not one (\<open>WrapWriter\<close>),
  which is why its inner writer is a base writer.
\<close>

datatype base = Conn | Miss nat

datatype writer = Base base | Rec nat

record recorder =
  rc_inner :: base
  rc_status :: int
  rc_committed :: bool

record miss_recorder =
  mr_header :: header
  mr_status :: int

datatype level = Debug | Info | Warn | Error

datatype panic_value = AbortHandler | PanicValue string

text \<open>What a log attribute holds; a stack trace is opaque.\<close>

datatype attr_value = AStr string | AInt int | ADuration int | APanic panic_value | AStack

record log_record =
  lg_level :: level
  lg_message :: string
  lg_attrs :: "(string \<times> attr_value) list"

datatype event = Opened | Closed

text \<open>
  The response of \<open>net/http\<close>: its header map, the informational responses sent, the final status
  with the header as it was then, the body accepted so far, and the error the client's connection
  gives to writing, if any. Then the recorders, miss recorders and requests at their addresses with
  the next free address of each, the log, the clock in nanoseconds, the connection's deadlines
  (\<open>None\<close> is no deadline) with the error setting one gives, the bytes of \<open>crypto/rand\<close>, and the
  opening and closing of proxied objects.
\<close>

record world =
  w_header :: header
  w_info :: "(int \<times> header) list"
  w_sent :: "(int \<times> header) option"
  w_body :: string
  w_conn_err :: "err option"
  w_recs :: "nat \<Rightarrow> recorder"
  w_next_rec :: nat
  w_misses :: "nat \<Rightarrow> miss_recorder"
  w_next_miss :: nat
  w_reqs :: "nat \<Rightarrow> request"
  w_next_req :: nat
  w_log :: "log_record list"
  w_clock :: int
  w_read_deadline :: "int option"
  w_write_deadline :: "int option"
  w_deadline_err :: "err option"
  w_rand :: "nat \<Rightarrow> char"
  w_rand_pos :: nat
  w_trace :: "event list"

section \<open>Effects\<close>

datatype 'a outcome = Done 'a | Panicked panic_value

type_synonym 'a go = "world \<Rightarrow> 'a outcome \<times> world"

definition go_return :: "'a \<Rightarrow> 'a go" where
  "go_return a s = (Done a, s)"

definition go_panic :: "panic_value \<Rightarrow> 'a go" where
  "go_panic v s = (Panicked v, s)"

definition go_bind :: "'a go \<Rightarrow> ('a \<Rightarrow> 'b go) \<Rightarrow> 'b go" where
  "go_bind m f s = (case m s of (Done a, s') \<Rightarrow> f a s' | (Panicked v, s') \<Rightarrow> (Panicked v, s'))"

definition go_seq :: "unit go \<Rightarrow> 'b go \<Rightarrow> 'b go" where
  "go_seq m n = go_bind m (\<lambda>_. n)"

definition go_modify :: "(world \<Rightarrow> world) \<Rightarrow> unit go" where
  "go_modify f s = (Done (), f s)"

definition go_read :: "(world \<Rightarrow> 'a) \<Rightarrow> 'a go" where
  "go_read f s = (Done (f s), s)"

text \<open>
  A deferred call that does not recover: it runs however the body ended and, if it panics itself,
  its panic takes over.
\<close>

definition go_defer :: "'a go \<Rightarrow> unit go \<Rightarrow> 'a go" where
  "go_defer m d s =
     (case m s of (r, s') \<Rightarrow>
        (case d s' of (Done _, s'') \<Rightarrow> (r, s'') | (Panicked v, s'') \<Rightarrow> (Panicked v, s'')))"

named_theorems go_simps \<open>running a sequence of effects\<close>

lemma go_return_simp [simp, go_simps]: "go_return a s = (Done a, s)"
  by (simp add: go_return_def)

lemma go_panic_simp [simp, go_simps]: "go_panic v s = (Panicked v, s)"
  by (simp add: go_panic_def)

lemma go_modify_simp [simp, go_simps]: "go_modify f s = (Done (), f s)"
  by (simp add: go_modify_def)

lemma go_read_simp [simp, go_simps]: "go_read f s = (Done (f s), s)"
  by (simp add: go_read_def)

lemma go_bind_Done [go_simps]: "m s = (Done a, s') \<Longrightarrow> go_bind m f s = f a s'"
  by (simp add: go_bind_def)

lemma go_bind_Panicked [go_simps]: "m s = (Panicked v, s') \<Longrightarrow> go_bind m f s = (Panicked v, s')"
  by (simp add: go_bind_def)

lemma go_bind_simps [simp, go_simps]:
  "go_bind (go_return a) f = f a"
  "go_bind (go_modify g) f1 s = f1 () (g s)"
  "go_bind (go_read g') f2 s = f2 (g' s) s"
  "go_bind (go_panic v) f3 s = (Panicked v, s)"
  by (simp_all add: go_bind_def fun_eq_iff)

lemma go_seq_simps [simp, go_simps]:
  "go_seq (go_modify g) n s = n (g s)"
  "go_seq (go_return ()) n = n"
  "go_seq (go_panic v) n s = (Panicked v, s)"
  by (simp_all add: go_seq_def)

lemma go_seq_Done [go_simps]: "m s = (Done (), s') \<Longrightarrow> go_seq m n s = n s'"
  by (simp add: go_seq_def go_bind_Done)

lemma go_seq_Panicked [go_simps]: "m s = (Panicked v, s') \<Longrightarrow> go_seq m n s = (Panicked v, s')"
  by (simp add: go_seq_def go_bind_Panicked)

lemma go_assoc [simp]:
  "go_bind (go_bind m f) g = go_bind m (\<lambda>x. go_bind (f x) g)"
  "go_bind (go_seq m' n) g' = go_seq m' (go_bind n g')"
  "go_seq (go_seq m' n') k = go_seq m' (go_seq n' k)"
  by (auto simp: go_bind_def go_seq_def fun_eq_iff split: prod.split outcome.split)

text \<open>
  A handler receives the address of its request, since \<open>*http.Request\<close> is shared: \<open>ServeMux\<close> sets
  the matched pattern in it, and an outer layer that passed the same pointer on sees it.
\<close>

type_synonym handler = "writer \<Rightarrow> nat \<Rightarrow> unit go"

type_synonym middleware = "handler \<Rightarrow> handler"

definition req :: "nat \<Rightarrow> world \<Rightarrow> request" where
  "req a s = w_reqs s a"

definition new_request :: "request \<Rightarrow> nat go" where
  "new_request r s =
     (Done (w_next_req s), s\<lparr>w_reqs := (w_reqs s)(w_next_req s := r), w_next_req := Suc (w_next_req s)\<rparr>)"

definition set_request :: "nat \<Rightarrow> (request \<Rightarrow> request) \<Rightarrow> unit go" where
  "set_request a f = go_modify (\<lambda>s. s\<lparr>w_reqs := (w_reqs s)(a := f (w_reqs s a))\<rparr>)"

definition log_attrs :: "level \<Rightarrow> string \<Rightarrow> (string \<times> attr_value) list \<Rightarrow> unit go" where
  "log_attrs l m as =
     go_modify (\<lambda>s. s\<lparr>w_log := w_log s @ [\<lparr>lg_level = l, lg_message = m, lg_attrs = as\<rparr>]\<rparr>)"

section \<open>Base writers\<close>

text \<open>
  \<open>net/http\<close>'s \<open>response.WriteHeader\<close>: ignored once a final status was written; a code outside three
  digits panics; a 1xx other than 101 is sent as an informational response; any other commits the
  response with the header map as it is now.
\<close>

definition conn_write_header :: "int \<Rightarrow> unit go" where
  "conn_write_header code s =
     (if w_sent s \<noteq> None then (Done (), s)
      else if code < 100 \<or> 999 < code
      then (Panicked (PanicValue (''invalid WriteHeader code '' @ show_int code)), s)
      else if 100 \<le> code \<and> code \<le> 199 \<and> code \<noteq> 101
      then (Done (), s\<lparr>w_info := w_info s @ [(code, w_header s)]\<rparr>)
      else (Done (), s\<lparr>w_sent := Some (code, w_header s)\<rparr>))"

definition body_allowed :: "int \<Rightarrow> bool" where
  "body_allowed status \<longleftrightarrow> \<not> (100 \<le> status \<and> status \<le> 199) \<and> status \<noteq> 204 \<and> status \<noteq> 304"

definition declared_length :: "header \<Rightarrow> int option" where
  "declared_length h =
     (case parse_int (header_get h ''Content-Length'') of
        Some n \<Rightarrow> if 0 \<le> n then Some n else None
      | None \<Rightarrow> None)"

text \<open>
  \<open>response.Write\<close> of some bytes: an implicit 200 first; then no body for a status without one, none
  beyond the declared length, and otherwise the client's connection decides.
\<close>

definition conn_write :: "string \<Rightarrow> err option go" where
  "conn_write data s =
     (let s = (if w_sent s = None then s\<lparr>w_sent := Some (200, w_header s)\<rparr> else s);
          (status, h) = the (w_sent s)
      in if data = [] then (Done None, s)
         else if \<not> body_allowed status
         then (Done (Some (Text ''http: request method or response status code does not allow body'')), s)
         else if (case declared_length h of None \<Rightarrow> False | Some n \<Rightarrow> n < int (length (w_body s) + length data))
         then (Done (Some (Text ''http: wrote more than the declared Content-Length'')), s)
         else case w_conn_err s of
                Some e \<Rightarrow> (Done (Some e), s)
              | None \<Rightarrow> (Done None, s\<lparr>w_body := w_body s @ data\<rparr>))"

definition conn_flush :: "err option go" where
  "conn_flush s =
     (let s = (if w_sent s = None then s\<lparr>w_sent := Some (200, w_header s)\<rparr> else s)
      in (Done (w_conn_err s), s))"

text \<open>The \<open>missRecorder\<close> of \<open>miss.go\<close>: it keeps the first status and the header, and discards the body.\<close>

definition miss_write_header :: "nat \<Rightarrow> int \<Rightarrow> unit go" where
  "miss_write_header m status =
     go_modify (\<lambda>s. if mr_status (w_misses s m) = 0
       then s\<lparr>w_misses := (w_misses s)(m := (w_misses s m)\<lparr>mr_status := status\<rparr>)\<rparr> else s)"

definition miss_write :: "nat \<Rightarrow> string \<Rightarrow> err option go" where
  "miss_write m b = go_seq (miss_write_header m 200) (go_return None)"

definition miss_header :: "nat \<Rightarrow> (header \<Rightarrow> header) \<Rightarrow> unit go" where
  "miss_header m f =
     go_modify (\<lambda>s. s\<lparr>w_misses := (w_misses s)(m := (w_misses s m)\<lparr>mr_header := f (mr_header (w_misses s m))\<rparr>)\<rparr>)"

fun base_write_header :: "base \<Rightarrow> int \<Rightarrow> unit go" where
  "base_write_header Conn code = conn_write_header code"
| "base_write_header (Miss m) code = miss_write_header m code"

fun base_write :: "base \<Rightarrow> string \<Rightarrow> err option go" where
  "base_write Conn data = conn_write data"
| "base_write (Miss m) data = miss_write m data"

fun base_flush :: "base \<Rightarrow> err option go" where
  "base_flush Conn = conn_flush"
| "base_flush (Miss m) = go_return (Some NotSupported)"

fun base_header :: "base \<Rightarrow> (header \<Rightarrow> header) \<Rightarrow> unit go" where
  "base_header Conn f = go_modify (\<lambda>s. s\<lparr>w_header := f (w_header s)\<rparr>)"
| "base_header (Miss m) f = miss_header m f"

fun base_header_map :: "base \<Rightarrow> world \<Rightarrow> header" where
  "base_header_map Conn s = w_header s"
| "base_header_map (Miss m) s = mr_header (w_misses s m)"

text \<open>\<open>io.Copy\<close> from a reader: its bytes are written, and an error other than the end is returned.\<close>

definition base_copy :: "base \<Rightarrow> body \<Rightarrow> err option go" where
  "base_copy b src =
     go_bind (if b_data src = [] then go_return None else base_write b (b_data src))
       (\<lambda>e. go_return (case e of Some _ \<Rightarrow> e | None \<Rightarrow> if b_end src = EOF then None else Some (b_end src)))"

lemma base_write_header_Done:
  "100 \<le> code \<Longrightarrow> code \<le> 999 \<Longrightarrow> fst (base_write_header b code s) = Done ()"
  by (cases b) (auto simp: conn_write_header_def miss_write_header_def)

lemma base_write_Done: "\<exists>e. fst (base_write b data s) = Done e"
  by (cases b) (auto simp: conn_write_def miss_write_def miss_write_header_def Let_def
      split: option.splits prod.splits)

lemma base_copy_Done: "\<exists>e t. base_copy b src s = (Done e, t)"
  using base_write_Done [of b "b_data src" s]
  by (cases "base_write b (b_data src) s") (auto simp: base_copy_def go_bind_def split: option.split)

lemma base_flush_Done: "\<exists>e. fst (base_flush b s) = Done e"
  by (cases b) (auto simp: conn_flush_def Let_def)

section \<open>An example state\<close>

text \<open>A request and an untouched response, which the witnesses start from.\<close>

definition example_request :: request where
  "example_request =
     \<lparr>r_method = ''GET'', r_path = ''/items/7'', r_raw_path = [], r_uri = ''/items/7'', r_proto = (1, 1), r_header = (\<lambda>_. []),
      r_remote = ''192.0.2.1:1234'', r_length = 0, r_body = \<lparr>b_data = [], b_end = EOF\<rparr>, r_pattern = [],
      r_values = [], r_ctx = \<lparr>cx_request_id = Some ''r1'', cx_deadline = None, cx_err = None\<rparr>\<rparr>"

definition example_world :: world where
  "example_world =
     \<lparr>w_header = (\<lambda>_. []), w_info = [], w_sent = None, w_body = [], w_conn_err = None,
      w_recs = (\<lambda>_. \<lparr>rc_inner = Conn, rc_status = 0, rc_committed = False\<rparr>), w_next_rec = 0,
      w_misses = (\<lambda>_. \<lparr>mr_header = (\<lambda>_. []), mr_status = 0\<rparr>), w_next_miss = 0,
      w_reqs = (\<lambda>_. example_request), w_next_req = 1, w_log = [], w_clock = 0,
      w_read_deadline = None, w_write_deadline = None, w_deadline_err = None,
      w_rand = (\<lambda>_. CHR 0x41), w_rand_pos = 0, w_trace = []\<rparr>"

end
