(* ===== verification/Recorder.thy ===== *)
theory Recorder imports World begin

text \<open>
  The \<open>Recorder\<close> (\<open>recorder.go\<close>): a writer that notes whether and with what status the response
  was committed, shared by every layer through \<open>WrapWriter\<close>. The writer operations the other
  components use are at the end, dispatching on a recorder or a base writer.
\<close>

section \<open>Operations\<close>

definition wrap_writer :: "writer \<Rightarrow> nat go" where
  "wrap_writer w s =
     (case w of
        Rec i \<Rightarrow> (Done i, s)
      | Base b \<Rightarrow>
          (Done (w_next_rec s),
           s\<lparr>w_recs := (w_recs s)(w_next_rec s := \<lparr>rc_inner = b, rc_status = 0, rc_committed = False\<rparr>),
             w_next_rec := Suc (w_next_rec s)\<rparr>))"

definition recorder_status :: "nat \<Rightarrow> world \<Rightarrow> int" where
  "recorder_status i s = rc_status (w_recs s i)"

definition recorder_committed :: "nat \<Rightarrow> world \<Rightarrow> bool" where
  "recorder_committed i s = rc_committed (w_recs s i)"

definition recorder_unwrap :: "nat \<Rightarrow> world \<Rightarrow> base" where
  "recorder_unwrap i s = rc_inner (w_recs s i)"

text \<open>\<open>if !rec.committed { rec.status = code; rec.committed = true }\<close>\<close>

definition commit :: "nat \<Rightarrow> int \<Rightarrow> unit go" where
  "commit i code =
     go_modify (\<lambda>s. if rc_committed (w_recs s i) then s
       else s\<lparr>w_recs := (w_recs s)(i := (w_recs s i)\<lparr>rc_status := code, rc_committed := True\<rparr>)\<rparr>)"

definition final_code :: "int \<Rightarrow> bool" where
  "final_code code \<longleftrightarrow> code < 100 \<or> 199 < code \<or> code = 101"

definition recorder_write_header :: "nat \<Rightarrow> int \<Rightarrow> unit go" where
  "recorder_write_header i code =
     go_seq (if final_code code then commit i code else go_return ())
       (\<lambda>s. base_write_header (rc_inner (w_recs s i)) code s)"

definition recorder_write :: "nat \<Rightarrow> string \<Rightarrow> err option go" where
  "recorder_write i b = go_seq (commit i 200) (\<lambda>s. base_write (rc_inner (w_recs s i)) b s)"

definition recorder_read_from :: "nat \<Rightarrow> body \<Rightarrow> err option go" where
  "recorder_read_from i src = go_seq (commit i 200) (\<lambda>s. base_copy (rc_inner (w_recs s i)) src s)"

definition recorder_flush_error :: "nat \<Rightarrow> err option go" where
  "recorder_flush_error i s =
     go_bind (base_flush (rc_inner (w_recs s i)))
       (\<lambda>e. case e of None \<Rightarrow> go_seq (commit i 200) (go_return None) | Some _ \<Rightarrow> go_return e) s"

definition recorder_flush :: "nat \<Rightarrow> unit go" where
  "recorder_flush i = go_bind (recorder_flush_error i) (\<lambda>_. go_return ())"

section \<open>Writers\<close>

definition writer_base :: "writer \<Rightarrow> world \<Rightarrow> base" where
  "writer_base w s = (case w of Base b \<Rightarrow> b | Rec i \<Rightarrow> rc_inner (w_recs s i))"

definition writer_header :: "writer \<Rightarrow> (header \<Rightarrow> header) \<Rightarrow> unit go" where
  "writer_header w f s = base_header (writer_base w s) f s"

definition writer_header_map :: "writer \<Rightarrow> world \<Rightarrow> header" where
  "writer_header_map w s = base_header_map (writer_base w s) s"

definition writer_write_header :: "writer \<Rightarrow> int \<Rightarrow> unit go" where
  "writer_write_header w code = (case w of Base b \<Rightarrow> base_write_header b code | Rec i \<Rightarrow> recorder_write_header i code)"

definition writer_write :: "writer \<Rightarrow> string \<Rightarrow> err option go" where
  "writer_write w b = (case w of Base b' \<Rightarrow> base_write b' b | Rec i \<Rightarrow> recorder_write i b)"

definition writer_copy :: "writer \<Rightarrow> body \<Rightarrow> err option go" where
  "writer_copy w src = (case w of Base b \<Rightarrow> base_copy b src | Rec i \<Rightarrow> recorder_read_from i src)"

section \<open>What a recorder adds to the writer beneath\<close>

text \<open>
  The base writers never touch the recorders, so an operation through a recorder is the operation
  on the base writer with the recorder's entry updated.
\<close>

definition set_recs :: "(nat \<Rightarrow> recorder) \<Rightarrow> 'a outcome \<times> world \<Rightarrow> 'a outcome \<times> world" where
  "set_recs R = apsnd (\<lambda>t. t\<lparr>w_recs := R\<rparr>)"

definition commit_recs :: "nat \<Rightarrow> int \<Rightarrow> (nat \<Rightarrow> recorder) \<Rightarrow> nat \<Rightarrow> recorder" where
  "commit_recs i code R =
     (if rc_committed (R i) then R else R(i := (R i)\<lparr>rc_status := code, rc_committed := True\<rparr>))"

lemma set_recs_simps [simp]: "set_recs R (r, t) = (r, t\<lparr>w_recs := R\<rparr>)"
  by (simp add: set_recs_def)

lemma commit_recs_simps [simp]:
  "rc_inner (commit_recs i code R j) = rc_inner (R j)"
  "rc_committed (commit_recs i code R i)"
  "j \<noteq> i \<Longrightarrow> commit_recs i code R j = R j"
  "rc_committed (R i) \<Longrightarrow> commit_recs i code R = R"
  "\<not> rc_committed (R i) \<Longrightarrow> rc_status (commit_recs i code R i) = code"
  by (simp_all add: commit_recs_def)

lemma commit_run: "commit i code s = (Done (), s\<lparr>w_recs := commit_recs i code (w_recs s)\<rparr>)"
  by (simp add: commit_def commit_recs_def)

lemma commit_seq: "go_seq (commit i code) n s = n (s\<lparr>w_recs := commit_recs i code (w_recs s)\<rparr>)"
  by (rule go_seq_Done) (rule commit_run)

lemma base_recs:
  "base_write_header b code (s\<lparr>w_recs := R\<rparr>) = set_recs R (base_write_header b code s)"
  "base_write b data (s\<lparr>w_recs := R\<rparr>) = set_recs R (base_write b data s)"
  "base_flush b (s\<lparr>w_recs := R\<rparr>) = set_recs R (base_flush b s)"
  "base_header b f (s\<lparr>w_recs := R\<rparr>) = set_recs R (base_header b f s)"
  by (cases b; auto simp: conn_write_header_def miss_write_header_def conn_write_def miss_write_def
      conn_flush_def miss_header_def Let_def split: option.splits prod.splits)+

lemma base_copy_recs:
  "base_copy b src (s\<lparr>w_recs := R\<rparr>) = set_recs R (base_copy b src s)"
  by (cases "base_write b (b_data src) s")
    (auto simp: base_copy_def go_bind_def base_recs split: outcome.splits)

lemma recorder_operations:
  "recorder_write i b s = set_recs (commit_recs i 200 (w_recs s)) (base_write (rc_inner (w_recs s i)) b s)"
  "recorder_read_from i src s = set_recs (commit_recs i 200 (w_recs s)) (base_copy (rc_inner (w_recs s i)) src s)"
  "recorder_write_header i code s =
     set_recs (if final_code code then commit_recs i code (w_recs s) else w_recs s)
       (base_write_header (rc_inner (w_recs s i)) code s)"
  using base_recs(1) [where b = "rc_inner (w_recs s i)" and s = s and R = "w_recs s"]
  by (simp_all add: recorder_write_def recorder_read_from_def recorder_write_header_def commit_seq
      base_recs base_copy_recs)

lemma recorder_flush_error_eq:
  "recorder_flush_error i s =
     (case base_flush (rc_inner (w_recs s i)) s of
        (Done None, t) \<Rightarrow> (Done None, t\<lparr>w_recs := commit_recs i 200 (w_recs t)\<rparr>)
      | rt \<Rightarrow> rt)"
  by (auto simp: recorder_flush_error_def go_bind_def commit_seq split: prod.split outcome.split option.split)

text \<open>The recorders after an operation of a writer that commits \<open>code\<close>.\<close>

definition writer_recs :: "writer \<Rightarrow> int \<Rightarrow> world \<Rightarrow> nat \<Rightarrow> recorder" where
  "writer_recs w code s = (case w of Base b \<Rightarrow> w_recs s | Rec i \<Rightarrow> commit_recs i code (w_recs s))"

lemma set_recs_same:
  "set_recs (w_recs s) (base_write b data s) = base_write b data s"
  "set_recs (w_recs s) (base_write_header b code s) = base_write_header b code s"
  "set_recs (w_recs s) (base_copy b src s) = base_copy b src s"
  "set_recs (w_recs s) (base_flush b s) = base_flush b s"
  using base_recs [where b = b and s = s and R = "w_recs s"]
    base_copy_recs [where b = b and s = s and R = "w_recs s"] by simp_all

lemma set_recs_fixD: "set_recs R x = x \<Longrightarrow> x = (r, t) \<Longrightarrow> w_recs t = R"
  by (auto simp: set_recs_def dest: arg_cong [where f = w_recs])

lemmas base_keeps_recs = set_recs_same [THEN set_recs_fixD]

lemma writer_operations:
  "writer_write w b s = set_recs (writer_recs w 200 s) (base_write (writer_base w s) b s)"
  "writer_copy w src s = set_recs (writer_recs w 200 s) (base_copy (writer_base w s) src s)"
  "writer_write_header w code s =
     set_recs (if final_code code then writer_recs w code s else w_recs s)
       (base_write_header (writer_base w s) code s)"
  by (cases w; simp add: writer_write_def writer_copy_def writer_write_header_def writer_recs_def
      writer_base_def recorder_operations set_recs_same)+

lemma writer_base_recs [simp]:
  "writer_base w (s\<lparr>w_recs := writer_recs w code s'\<rparr>) = writer_base w (s\<lparr>w_recs := w_recs s'\<rparr>)"
  by (simp add: writer_base_def writer_recs_def split: writer.split)

subsection \<open>What an operation leaves alone\<close>

text \<open>The writer operations touch the response and the recorders, and nothing else.\<close>

definition same_outside :: "world \<Rightarrow> world \<Rightarrow> bool" where
  "same_outside s t \<longleftrightarrow>
     w_reqs t = w_reqs s \<and> w_next_req t = w_next_req s \<and> w_trace t = w_trace s \<and> w_log t = w_log s \<and>
     w_clock t = w_clock s \<and> w_conn_err t = w_conn_err s \<and> w_read_deadline t = w_read_deadline s \<and>
     w_write_deadline t = w_write_deadline s \<and> w_deadline_err t = w_deadline_err s \<and>
     w_rand t = w_rand s \<and> w_rand_pos t = w_rand_pos s \<and>
     (\<forall>i. rc_inner (w_recs t i) = rc_inner (w_recs s i))"

lemma same_outside_refl [simp]: "same_outside s s"
  by (simp add: same_outside_def)

lemma same_outside_trans [trans]: "same_outside s t \<Longrightarrow> same_outside t u \<Longrightarrow> same_outside s u"
  by (simp add: same_outside_def)

lemma base_same_outside:
  "base_header b f s = (r1, t) \<Longrightarrow> same_outside s t"
  "base_write_header b c s = (r2, t) \<Longrightarrow> same_outside s t"
  "base_write b d s = (r3, t) \<Longrightarrow> same_outside s t"
  "base_flush b s = (r4, t) \<Longrightarrow> same_outside s t"
  by (cases b; auto simp: same_outside_def conn_write_header_def miss_write_header_def conn_write_def
      miss_write_def miss_header_def conn_flush_def Let_def split: if_splits option.splits prod.splits)+

lemma base_copy_same_outside: "base_copy b src s = (r, t) \<Longrightarrow> same_outside s t"
  by (auto simp: base_copy_def go_bind_def split: prod.splits outcome.splits if_splits dest: base_same_outside(3))

lemma same_outside_recs:
  "same_outside s t \<Longrightarrow> same_outside s (t\<lparr>w_recs := writer_recs w c s\<rparr>)"
  "same_outside s t \<Longrightarrow> same_outside s (t\<lparr>w_recs := w_recs s\<rparr>)"
  by (cases w; auto simp: same_outside_def writer_recs_def)+

lemma writer_same_outside:
  "writer_header w f s = (r1, t) \<Longrightarrow> same_outside s t"
  "writer_write_header w c s = (r2, t) \<Longrightarrow> same_outside s t"
  "writer_write w d s = (r3, t) \<Longrightarrow> same_outside s t"
  "writer_copy w src s = (r4, t) \<Longrightarrow> same_outside s t"
  by (auto simp: writer_header_def writer_operations set_recs_def apsnd_def map_prod_def
      dest!: base_same_outside base_copy_same_outside intro!: same_outside_recs split: prod.splits if_splits)

lemma writer_base_same: "same_outside s t \<Longrightarrow> writer_base w t = writer_base w s"
  by (simp add: same_outside_def writer_base_def split: writer.split)

text \<open>Effects that touch the response and the recorders alone, and effects that neither read nor write the log.\<close>

definition response_only :: "'a go \<Rightarrow> bool" where
  "response_only m \<longleftrightarrow> (\<forall>s. same_outside s (snd (m s)))"

lemma response_onlyD: "response_only m \<Longrightarrow> m s = (r, t) \<Longrightarrow> same_outside s t"
  by (auto simp: response_only_def dest: spec [of _ s])

lemma response_only_bind:
  assumes "response_only m" "\<And>x. response_only (f x)"
  shows "response_only (go_bind m f)"
  unfolding response_only_def go_bind_def
proof
  fix s
  obtain r t where m: "m s = (r, t)" by fastforce
  have st: "same_outside s t" using assms(1) m by (rule response_onlyD)
  have "same_outside t (snd (f x t))" for x using assms(2) [of x] by (simp add: response_only_def)
  then show "same_outside s (snd (case m s of (Done a, s') \<Rightarrow> f a s' | (Panicked v, s') \<Rightarrow> (Panicked v, s')))"
    using m st by (cases r) (auto intro: same_outside_trans)
qed

lemma response_only_basic:
  "response_only (go_return x)" "response_only (go_panic v)"
  "response_only (writer_header w f)" "response_only (writer_write_header w c)"
  "response_only (writer_write w d)" "response_only (writer_copy w src)"
  using writer_same_outside [OF prod.collapse [symmetric]] by (auto simp: response_only_def)

lemma response_only_seq: "response_only m \<Longrightarrow> response_only n \<Longrightarrow> response_only (go_seq m n)"
  unfolding go_seq_def by (rule response_only_bind)

lemmas response_only_intros = response_only_basic response_only_bind response_only_seq

definition set_log :: "log_record list \<Rightarrow> 'a outcome \<times> world \<Rightarrow> 'a outcome \<times> world" where
  "set_log l = apsnd (\<lambda>t. t\<lparr>w_log := l\<rparr>)"

definition log_free :: "'a go \<Rightarrow> bool" where
  "log_free m \<longleftrightarrow> (\<forall>s l. m (s\<lparr>w_log := l\<rparr>) = set_log l (m s))"

lemma base_log:
  "base_write_header b code (s\<lparr>w_log := l\<rparr>) = set_log l (base_write_header b code s)"
  "base_write b data (s\<lparr>w_log := l\<rparr>) = set_log l (base_write b data s)"
  "base_header b f (s\<lparr>w_log := l\<rparr>) = set_log l (base_header b f s)"
  by (cases b; auto simp: set_log_def conn_write_header_def miss_write_header_def conn_write_def miss_write_def
      miss_header_def Let_def split: option.splits prod.splits)+

lemma log_free_bind: "log_free m \<Longrightarrow> (\<And>x. log_free (f x)) \<Longrightarrow> log_free (go_bind m f)"
  by (auto simp: log_free_def set_log_def go_bind_def split: prod.split outcome.split)

lemma log_free_seq: "log_free m \<Longrightarrow> log_free n \<Longrightarrow> log_free (go_seq m n)"
  unfolding go_seq_def by (rule log_free_bind)

lemma log_free_basic:
  "log_free (go_return x)" "log_free (writer_header w f)"
  "log_free (writer_write_header w c)" "log_free (writer_write w d)"
  by (cases w; simp add: log_free_def set_log_def writer_header_def writer_operations writer_recs_def
      writer_base_def base_log apsnd_compose comp_def set_recs_def)+

lemmas log_free_intros = log_free_basic log_free_bind log_free_seq

text \<open>Each operation written out for a writer over the client's connection.\<close>

lemma conn_steps:
  assumes "writer_base w s = Conn"
  shows "writer_header w f s = (Done (), s\<lparr>w_header := f (w_header s)\<rparr>)"
    and "w_sent s = None \<Longrightarrow> 200 \<le> c \<Longrightarrow> c \<le> 999 \<Longrightarrow>
      writer_write_header w c s = (Done (), s\<lparr>w_sent := Some (c, w_header s), w_recs := writer_recs w c s\<rparr>)"
    and "writer_write w d s = set_recs (writer_recs w 200 s) (conn_write d s)"
    and "writer_copy w src s = set_recs (writer_recs w 200 s) (base_copy Conn src s)"
  using assms by (auto simp: writer_header_def writer_operations conn_write_header_def final_code_def)

lemma writer_base_updates [simp]:
  "writer_base w (s\<lparr>w_header := h\<rparr>) = writer_base w s"
  "writer_base w (s\<lparr>w_sent := x\<rparr>) = writer_base w s"
  "writer_base w (s\<lparr>w_body := b\<rparr>) = writer_base w s"
  "writer_base w (s\<lparr>w_log := l\<rparr>) = writer_base w s"
  "writer_base w (s\<lparr>w_trace := tr\<rparr>) = writer_base w s"
  by (cases w; simp add: writer_base_def)+

text \<open>
  Claim C40 (equivalence). A recorder is transparent: every operation through it gives the result
  the writer beneath gives and leaves everything but the recorders themselves as that writer leaves
  it, and of the recorders it changes at most its own.
\<close>

theorem recorder_transparent:
  "\<exists>R R' R''. (\<forall>j. j \<noteq> i \<longrightarrow> R j = w_recs s j \<and> R' j = w_recs s j \<and> R'' j = w_recs s j) \<and>
     recorder_write i b s = set_recs R (base_write (rc_inner (w_recs s i)) b s) \<and>
     recorder_read_from i src s = set_recs R (base_copy (rc_inner (w_recs s i)) src s) \<and>
     recorder_write_header i code s = set_recs R' (base_write_header (rc_inner (w_recs s i)) code s) \<and>
     recorder_flush_error i s = set_recs R'' (base_flush (rc_inner (w_recs s i)) s)"
proof -
  obtain r t where f: "base_flush (rc_inner (w_recs s i)) s = (r, t)"
    by (cases "base_flush (rc_inner (w_recs s i)) s")
  then have t: "w_recs t = w_recs s" by (rule base_keeps_recs)
  let ?R = "commit_recs i 200 (w_recs s)"
  let ?R' = "if final_code code then commit_recs i code (w_recs s) else w_recs s"
  let ?R'' = "if r = Done None then commit_recs i 200 (w_recs s) else w_recs s"
  have "recorder_flush_error i s = set_recs ?R'' (r, t)"
    using f t by (auto simp: recorder_flush_error_eq split: outcome.split option.split)
  then show ?thesis
    using f by (intro exI [of _ ?R] exI [of _ ?R'] exI [of _ ?R'']) (auto simp: recorder_operations)
qed

theorem recorder_transparent_witness:
  "\<exists>R. R 1 = w_recs example_world 1 \<and>
     recorder_write 0 ''x'' example_world = set_recs R (base_write (rc_inner (w_recs example_world 0)) ''x'' example_world)"
  using recorder_transparent [of 0 example_world "''x''" "\<lparr>b_data = [], b_end = EOF\<rparr>" 200] zero_neq_one by blast

section \<open>The recorder as a state machine\<close>

text \<open>
  The steps a layer can take on the response through recorder \<open>i\<close>. Status codes are the three-digit
  ones \<open>net/http\<close> accepts, and a source copied from delivers at least a byte; the last section
  shows what the recorder does outside these bounds. The environment may do anything else, and the client's connection may fail at any time,
  but a failed connection stays failed.
\<close>

inductive rec_step :: "nat \<Rightarrow> world \<Rightarrow> world \<Rightarrow> bool" for i where
  do_write_header: "100 \<le> code \<Longrightarrow> code \<le> 999 \<Longrightarrow> recorder_write_header i code s = (r, t) \<Longrightarrow> rec_step i s t"
| do_write: "recorder_write i b s = (r', t) \<Longrightarrow> rec_step i s t"
| do_read_from: "b_data src \<noteq> [] \<Longrightarrow> recorder_read_from i src s = (r', t) \<Longrightarrow> rec_step i s t"
| do_flush: "recorder_flush i s = (r, t) \<Longrightarrow> rec_step i s t"
| environment: "w_recs t i = w_recs s i \<Longrightarrow> w_sent t = w_sent s \<Longrightarrow>
    (w_conn_err s \<noteq> None \<Longrightarrow> w_conn_err t \<noteq> None) \<Longrightarrow> rec_step i s t"

text \<open>Every history of a recorder: \<open>WrapWriter\<close> on an untouched response, then steps.\<close>

inductive rec_reachable :: "nat \<Rightarrow> world \<Rightarrow> bool" for i where
  start: "w_sent s = None \<Longrightarrow> wrap_writer (Base Conn) s = (Done i, t) \<Longrightarrow> rec_reachable i t"
| step: "rec_reachable i s \<Longrightarrow> rec_step i s t \<Longrightarrow> rec_reachable i t"

text \<open>
  While the connection works, the recorder reports exactly what went out: committed iff a final
  status was sent, with that status. On a failed connection it may miss a flush that failed, but a
  committed recorder always stands for a sent status.
\<close>

definition rec_inv :: "nat \<Rightarrow> world \<Rightarrow> bool" where
  "rec_inv i s \<longleftrightarrow>
     rc_inner (w_recs s i) = Conn \<and>
     (recorder_committed i s \<longrightarrow> w_sent s \<noteq> None) \<and>
     (\<not> recorder_committed i s \<longrightarrow> recorder_status i s = 0) \<and>
     (w_conn_err s = None \<longrightarrow>
        map_option fst (w_sent s) = (if recorder_committed i s then Some (recorder_status i s) else None))"

subsection \<open>What each primitive does to the sent status\<close>

definition sent_or_200 :: "world \<Rightarrow> (int \<times> header) option" where
  "sent_or_200 s = Some (case w_sent s of None \<Rightarrow> (200, w_header s) | Some x \<Rightarrow> x)"

lemma conn_write_effect:
  "conn_write b s = (r, t) \<Longrightarrow>
     w_recs t = w_recs s \<and> w_conn_err t = w_conn_err s \<and> w_sent t = sent_or_200 s"
  by (auto simp: conn_write_def sent_or_200_def Let_def split: if_splits option.splits prod.splits)

lemma conn_flush_effect:
  "conn_flush s = (r, t) \<Longrightarrow>
     r = Done (w_conn_err s) \<and> w_recs t = w_recs s \<and> w_conn_err t = w_conn_err s \<and> w_sent t = sent_or_200 s"
  by (auto simp: conn_flush_def sent_or_200_def Let_def split: if_splits option.splits)

lemma base_copy_effect:
  "b_data src \<noteq> [] \<Longrightarrow> base_copy Conn src s = (r, t) \<Longrightarrow>
     w_recs t = w_recs s \<and> w_conn_err t = w_conn_err s \<and> w_sent t = sent_or_200 s"
  by (auto simp: base_copy_def go_bind_def split: prod.splits outcome.splits dest!: conn_write_effect)

lemma conn_write_header_effect:
  "100 \<le> code \<Longrightarrow> code \<le> 999 \<Longrightarrow> conn_write_header code s = (r, t) \<Longrightarrow>
     w_recs t = w_recs s \<and> w_conn_err t = w_conn_err s \<and>
     w_sent t = (if w_sent s = None \<and> final_code code then Some (code, w_header s) else w_sent s)"
  by (auto simp: conn_write_header_def final_code_def split: if_splits)

text \<open>An operation that commits a status and makes sure one is sent keeps the invariant.\<close>

lemma rec_inv_committed:
  assumes "rec_inv i s" "w_recs t = commit_recs i code (w_recs s)" "w_conn_err t = w_conn_err s"
    "w_sent t = (if w_sent s = None then Some (code, h) else w_sent s)"
  shows "rec_inv i t"
  using assms
  by (cases "recorder_committed i s")
    (auto simp: rec_inv_def recorder_committed_def recorder_status_def split: if_splits)

lemma rec_inv_write_header:
  assumes "rec_inv i s" "100 \<le> code" "code \<le> 999" "recorder_write_header i code s = (r, t)"
  shows "rec_inv i t"
proof -
  obtain r' u where u: "conn_write_header code s = (r', u)" by (cases "conn_write_header code s")
  note e = conn_write_header_effect [OF assms(2,3) u]
  have t: "t = u\<lparr>w_recs := if final_code code then commit_recs i code (w_recs s) else w_recs s\<rparr>"
    using assms(1,4) u by (simp add: recorder_operations rec_inv_def)
  show ?thesis
  proof (cases "final_code code")
    case True
    then show ?thesis using e t by (intro rec_inv_committed [OF assms(1), of t code "w_header s"]) auto
  next
    case False
    then show ?thesis
      using assms(1) e t by (simp add: rec_inv_def recorder_committed_def recorder_status_def)
  qed
qed

lemma rec_inv_write:
  assumes "rec_inv i s" "recorder_write i b s = (r, t)"
  shows "rec_inv i t"
proof -
  obtain r' u where u: "conn_write b s = (r', u)" by (cases "conn_write b s")
  show ?thesis
    using assms u conn_write_effect [OF u]
    by (intro rec_inv_committed [OF assms(1), of t 200 "w_header s"])
      (auto simp: recorder_operations rec_inv_def sent_or_200_def split: option.splits)
qed

lemma rec_inv_read_from:
  assumes "rec_inv i s" "b_data src \<noteq> []" "recorder_read_from i src s = (r, t)"
  shows "rec_inv i t"
proof -
  obtain r' u where u: "base_copy Conn src s = (r', u)" by (cases "base_copy Conn src s")
  show ?thesis
    using assms u base_copy_effect [OF assms(2) u]
    by (intro rec_inv_committed [OF assms(1), of t 200 "w_header s"])
      (auto simp: recorder_operations rec_inv_def sent_or_200_def split: option.splits)
qed

lemma rec_inv_flush:
  assumes "rec_inv i s" "recorder_flush i s = (r, t)"
  shows "rec_inv i t"
proof -
  obtain r' u where u: "conn_flush s = (r', u)" by (cases "conn_flush s")
  note e = conn_flush_effect [OF u]
  have inner: "rc_inner (w_recs s i) = Conn" using assms(1) by (simp add: rec_inv_def)
  have t: "t = (case w_conn_err s of None \<Rightarrow> u\<lparr>w_recs := commit_recs i 200 (w_recs s)\<rparr> | Some _ \<Rightarrow> u)"
    using assms(2) u e inner
    by (auto simp: recorder_flush_def recorder_flush_error_eq go_bind_def split: option.splits)
  show ?thesis
  proof (cases "w_conn_err s")
    case None
    then show ?thesis
      using e t by (intro rec_inv_committed [OF assms(1), of t 200 "w_header s"])
        (auto simp: sent_or_200_def split: option.splits)
  next
    case (Some x)
    then show ?thesis
      using assms(1) e t by (auto simp: rec_inv_def recorder_committed_def recorder_status_def sent_or_200_def)
  qed
qed

lemma rec_step_inv: "rec_step i s t \<Longrightarrow> rec_inv i s \<Longrightarrow> rec_inv i t"
proof (induction rule: rec_step.induct)
  case (environment t s)
  then show ?case by (auto simp: rec_inv_def recorder_committed_def recorder_status_def)
qed (auto intro: rec_inv_write_header rec_inv_write rec_inv_read_from rec_inv_flush)

lemma rec_reachable_inv: "rec_reachable i s \<Longrightarrow> rec_inv i s"
proof (induction rule: rec_reachable.induct)
  case (start s t)
  then show ?case by (auto simp: rec_inv_def wrap_writer_def recorder_committed_def recorder_status_def)
next
  case (step s t)
  then show ?case by (blast intro: rec_step_inv)
qed



text \<open>
  The first status committed is final: whatever a layer does afterwards, the
  recorder stays committed with the status it had.
\<close>

theorem recorder_status_final:
  assumes "(rec_step i)\<^sup>*\<^sup>* s t" "recorder_committed i s"
  shows "recorder_committed i t \<and> recorder_status i t = recorder_status i s"
  using assms(1)
proof (induction rule: rtranclp_induct)
  case base
  then show ?case using assms(2) by simp
next
  case (step t u)
  have "w_recs u i = w_recs t i" if "rec_step i t u" "rc_committed (w_recs t i)"
    using that
    by cases (auto simp: recorder_operations recorder_flush_def recorder_flush_error_eq go_bind_def
        set_recs_def apsnd_def map_prod_def base_keeps_recs
        split: prod.splits outcome.splits option.splits)
  with step show ?case by (simp add: recorder_committed_def recorder_status_def)
qed

theorem recorder_status_final_witness:
  "(let s = snd (recorder_write_header 0 404 example_world);
        t = snd (recorder_write_header 0 200 s)
    in recorder_committed 0 t \<and> recorder_status 0 t = recorder_status 0 s)"
proof -
  define s where "s = snd (recorder_write_header 0 404 example_world)"
  define t where "t = snd (recorder_write_header 0 200 s)"
  have c: "recorder_committed 0 s"
    by (simp add: s_def recorder_operations conn_write_header_def example_world_def recorder_committed_def
        final_code_def commit_recs_def)
  have "recorder_write_header 0 200 s = (Done (), t)"
    by (simp add: t_def s_def recorder_operations conn_write_header_def example_world_def)
  then have "rec_step 0 s t"
    by (intro rec_step.do_write_header [of 200]) simp_all
  with recorder_status_final [OF r_into_rtranclp c] show ?thesis by (simp add: s_def t_def)
qed

section \<open>Where the recorder and the response part\<close>

text \<open>
  A status code \<open>net/http\<close> refuses: the recorder commits it before delegating, so
  after the panic it reports a response that was never sent.
\<close>

theorem recorder_invalid_code:
  assumes "rc_inner (w_recs s i) = Conn" "w_sent s = None" "\<not> recorder_committed i s"
    "code < 100 \<or> 999 < code"
  shows "\<exists>t. recorder_write_header i code s = (Panicked (PanicValue (''invalid WriteHeader code '' @ show_int code)), t) \<and>
    recorder_committed i t \<and> recorder_status i t = code \<and> w_sent t = None"
proof -
  have "final_code code" using assms(4) by (auto simp: final_code_def)
  then show ?thesis
    using assms by (auto simp: recorder_operations conn_write_header_def recorder_committed_def
        recorder_status_def commit_recs_def)
qed

theorem recorder_invalid_code_witness:
  "\<exists>t. recorder_write_header 0 42 example_world = (Panicked (PanicValue (''invalid WriteHeader code '' @ show_int 42)), t) \<and>
    recorder_committed 0 t \<and> recorder_status 0 t = 42 \<and> w_sent t = None"
  by (rule recorder_invalid_code) (simp_all add: example_world_def recorder_committed_def)

text \<open>
  Copying from a source that fails before its first byte: the recorder reports a
  committed 200 although nothing was sent and the response could still carry the error.
\<close>

theorem recorder_empty_copy:
  assumes "rc_inner (w_recs s i) = Conn" "w_sent s = None" "\<not> recorder_committed i s"
    "b_data src = []" "b_end src \<noteq> EOF"
  shows "\<exists>t. recorder_read_from i src s = (Done (Some (b_end src)), t) \<and>
    recorder_committed i t \<and> recorder_status i t = 200 \<and> w_sent t = None"
  using assms by (auto simp: recorder_operations base_copy_def recorder_committed_def
      recorder_status_def commit_recs_def)

theorem recorder_empty_copy_witness:
  "\<exists>t. recorder_read_from 0 \<lparr>b_data = [], b_end = Text ''lost''\<rparr> example_world = (Done (Some (Text ''lost'')), t) \<and>
    recorder_committed 0 t \<and> recorder_status 0 t = 200 \<and> w_sent t = None"
  using recorder_empty_copy [of example_world 0 "\<lparr>b_data = [], b_end = Text ''lost''\<rparr>"]
  by (simp add: example_world_def recorder_committed_def)

end
