(* ===== verification/Write_Problem.thy ===== *)
theory Write_Problem imports Recorder begin

text \<open>
  Writing a document as the whole response: \<open>WriteJSON\<close> (\<open>response.go\<close>), \<open>Problem.Write\<close>,
  \<open>Problem.WriteFor\<close> and \<open>WriteProblem\<close> (\<open>problem.go\<close>), and the correlation id a context carries
  (\<open>requestid.go\<close>). What they rely on in a \<open>http.ResponseWriter\<close> is the locale \<open>response_writer\<close>,
  which every writer of the model satisfies, and \<open>document_writer\<close> for one that keeps the body.
\<close>

section \<open>Correlation id\<close>

definition request_id_member :: string where
  "request_id_member = ''request_id''"

definition with_request_id :: "ctx \<Rightarrow> string \<Rightarrow> ctx" where
  "with_request_id c rid = c\<lparr>cx_request_id := Some rid\<rparr>"

definition request_id_from :: "ctx \<Rightarrow> string option" where
  "request_id_from c = cx_request_id c"

section \<open>Sending a document\<close>

text \<open>
  \<open>json.NewEncoder(w).Encode(v)\<close>: one write of the document and a newline, or an error before
  anything is written. The error's text names the Go type, which the model does not know.
\<close>

definition encode_error :: err where
  "encode_error = Text ''json: unsupported type''"

definition encode_to :: "(string \<Rightarrow> err option go) \<Rightarrow> json \<Rightarrow> err option go" where
  "encode_to wr j =
     (case encode_json j of
        None \<Rightarrow> go_return (Some encode_error)
      | Some text \<Rightarrow> wr (text @ [CHR 0x0A]))"

text \<open>The three lines \<open>WriteJSON\<close> and \<open>Problem.Write\<close> share, over the methods of a writer.\<close>

definition send_json ::
  "((header \<Rightarrow> header) \<Rightarrow> unit go) \<Rightarrow> (int \<Rightarrow> unit go) \<Rightarrow> (string \<Rightarrow> err option go) \<Rightarrow>
   string \<Rightarrow> int \<Rightarrow> json \<Rightarrow> err option go" where
  "send_json hdr wh wr media status j =
     go_seq (hdr (header_set ''Content-Type'' media)) (go_seq (wh status) (encode_to wr j))"

definition json_media_type :: string where
  "json_media_type = ''application/json''"

definition write_json :: "writer \<Rightarrow> int \<Rightarrow> json \<Rightarrow> err option go" where
  "write_json w status data =
     send_json (writer_header w) (writer_write_header w) (writer_write w) json_media_type status data"

definition problem_write :: "writer \<Rightarrow> problem \<Rightarrow> err option go" where
  "problem_write w p =
     (let p = apply_defaults p in
      send_json (writer_header w) (writer_write_header w) (writer_write w) problem_media_type
        (p_status p) (marshal_problem p))"

definition problem_for :: "request \<Rightarrow> problem \<Rightarrow> problem" where
  "problem_for r p =
     (let p = (if p_instance p = [] then p\<lparr>p_instance := r_path r\<rparr> else p)
      in case request_id_from (r_ctx r) of
           None \<Rightarrow> p
         | Some rid \<Rightarrow>
             if rid \<noteq> [] then p\<lparr>p_extras := obj_put request_id_member (JStr rid) (obj_copy [] (p_extras p))\<rparr>
             else p)"

definition problem_write_for :: "writer \<Rightarrow> nat \<Rightarrow> problem \<Rightarrow> err option go" where
  "problem_write_for w a p s = problem_write w (problem_for (req a s) p) s"

definition write_problem :: "writer \<Rightarrow> nat \<Rightarrow> int \<Rightarrow> string \<Rightarrow> string \<Rightarrow> err option go" where
  "write_problem w a status title detail =
     problem_write_for w a ((status_problem status)\<lparr>p_title := title, p_detail := detail\<rparr>)"

section \<open>The response writer interface\<close>

text \<open>
  What \<open>http.ResponseWriter\<close> documents: the header map can always be changed, the first final
  status wins, and writing commits an implicit 200.
\<close>

locale response_writer =
  fixes hdr :: "(header \<Rightarrow> header) \<Rightarrow> unit go"
    and wh :: "int \<Rightarrow> unit go"
    and wr :: "string \<Rightarrow> err option go"
    and hmap :: "world \<Rightarrow> header"
    and status :: "world \<Rightarrow> int option"
  assumes hdr_changes: "\<exists>t. hdr f s = (Done (), t) \<and> hmap t = f (hmap s) \<and> status t = status s"
    and wh_commits: "200 \<le> c \<Longrightarrow> c \<le> 999 \<Longrightarrow> \<exists>t. wh c s = (Done (), t) \<and> hmap t = hmap s \<and>
      status t = Some (case status s of None \<Rightarrow> c | Some d \<Rightarrow> d)"
    and wr_commits: "\<exists>e t. wr b s = (Done e, t) \<and> hmap t = hmap s \<and>
      status t = Some (case status s of None \<Rightarrow> 200 | Some d \<Rightarrow> d)"
begin

text \<open>A document sent as the response never panics and has its own status, unless one was sent.\<close>

lemma send_json_status:
  assumes "200 \<le> c" "c \<le> 999"
  shows "\<exists>e t. send_json hdr wh wr media c j s = (Done e, t) \<and>
    status t = Some (case status s of None \<Rightarrow> c | Some d \<Rightarrow> d)"
proof -
  obtain t where t: "hdr (header_set ''Content-Type'' media) s = (Done (), t)" "status t = status s"
    using hdr_changes by blast
  obtain u where u: "wh c t = (Done (), u)" "status u = Some (case status s of None \<Rightarrow> c | Some d \<Rightarrow> d)"
    using wh_commits [OF assms, of t] t(2) by auto
  show ?thesis
  proof (cases "encode_json j")
    case None
    with t u show ?thesis by (simp add: send_json_def go_simps encode_to_def)
  next
    case (Some tx)
    obtain e v where "wr (tx @ [CHR 0x0A]) u = (Done e, v)" "status v = status u"
      using wr_commits [of "tx @ [CHR 0x0A]" u] u(2) by auto
    with t u Some show ?thesis by (simp add: send_json_def go_simps encode_to_def)
  qed
qed

lemma send_json_unencodable:
  assumes "200 \<le> c" "c \<le> 999" "encode_json j = None"
  shows "\<exists>t. send_json hdr wh wr media c j s = (Done (Some encode_error), t)"
proof -
  obtain t where t: "hdr (header_set ''Content-Type'' media) s = (Done (), t)"
    using hdr_changes by blast
  moreover obtain u where "wh c t = (Done (), u)" using wh_commits [OF assms(1,2)] by blast
  ultimately show ?thesis using assms(3) by (simp add: send_json_def go_simps encode_to_def)
qed

end

text \<open>A writer whose body reaches the client while it is \<open>alive\<close>.\<close>

locale document_writer = response_writer +
  fixes alive :: "world \<Rightarrow> bool"
    and body :: "world \<Rightarrow> string"
    and sent_header :: "world \<Rightarrow> header"
  assumes hdr_alive: "alive s \<Longrightarrow> hdr f s = (r, t) \<Longrightarrow> alive t \<and> body t = body s"
    and wh_alive: "alive s \<Longrightarrow> status s = None \<Longrightarrow> 200 \<le> c \<Longrightarrow> c \<le> 999 \<Longrightarrow> wh c s = (r, t) \<Longrightarrow>
      alive t \<and> body t = body s \<and> sent_header t = hmap s"
    and wr_alive: "alive s \<Longrightarrow> status s = Some c \<Longrightarrow> body_allowed c \<Longrightarrow>
      declared_length (sent_header s) = None \<Longrightarrow>
      \<exists>t. wr b s = (Done None, t) \<and> body t = body s @ b \<and> sent_header t = sent_header s"
begin

lemma send_json_document:
  assumes "alive s" "status s = None" "200 \<le> c" "c \<le> 999" "body_allowed c"
    "declared_length (header_set ''Content-Type'' media (hmap s)) = None" "encode_json j = Some tx"
  shows "\<exists>t. send_json hdr wh wr media c j s = (Done None, t) \<and> status t = Some c \<and>
    body t = body s @ tx @ [CHR 0x0A] \<and> sent_header t = header_set ''Content-Type'' media (hmap s)"
proof -
  obtain t where t: "hdr (header_set ''Content-Type'' media) s = (Done (), t)" "status t = None"
    "hmap t = header_set ''Content-Type'' media (hmap s)"
    using hdr_changes [of "header_set ''Content-Type'' media" s] assms(2) by auto
  note ta = hdr_alive [OF assms(1) t(1)]
  obtain u where u: "wh c t = (Done (), u)" "status u = Some c"
    using wh_commits [OF assms(3,4), of t] t(2) by auto
  note ua = wh_alive [OF _ t(2) assms(3,4) u(1)]
  obtain v where "wr (tx @ [CHR 0x0A]) u = (Done None, v)" "body v = body u @ tx @ [CHR 0x0A]"
    "sent_header v = sent_header u"
    using wr_alive [of u c "tx @ [CHR 0x0A]"] ua u(2) ta t(3) assms(5,6) by auto
  moreover have "status v = Some c"
    using wr_commits [of "tx @ [CHR 0x0A]" u] calculation(1) u(2) by auto
  ultimately show ?thesis
    using t u ta ua assms(7) by (simp add: send_json_def go_simps encode_to_def)
qed

end

subsection \<open>Every writer of the model\<close>

definition base_status :: "base \<Rightarrow> world \<Rightarrow> int option" where
  "base_status b s =
     (case b of Conn \<Rightarrow> map_option fst (w_sent s)
      | Miss m \<Rightarrow> if mr_status (w_misses s m) = 0 then None else Some (mr_status (w_misses s m)))"

definition writer_status :: "writer \<Rightarrow> world \<Rightarrow> int option" where
  "writer_status w s = base_status (writer_base w s) s"

definition writer_alive :: "writer \<Rightarrow> world \<Rightarrow> bool" where
  "writer_alive w s \<longleftrightarrow> writer_base w s = Conn \<and> w_conn_err s = None"

definition conn_header :: "world \<Rightarrow> header" where
  "conn_header s = (case w_sent s of None \<Rightarrow> w_header s | Some (_, h) \<Rightarrow> h)"

lemma set_recs_fst [simp]: "fst (set_recs R x) = fst x"
  by (cases x) simp

text \<open>The three methods on a base writer: the outcome, the header map and the status after.\<close>

lemma base_header_effect:
  "base_header b f s = (r, t) \<Longrightarrow>
     r = Done () \<and> w_recs t = w_recs s \<and> base_header_map b t = f (base_header_map b s) \<and>
     base_status b t = base_status b s \<and> w_conn_err t = w_conn_err s \<and> w_sent t = w_sent s \<and> w_body t = w_body s"
  by (cases b) (auto simp: miss_header_def base_status_def)

lemma base_write_header_effect:
  assumes "200 \<le> c" "c \<le> 999" "base_write_header b c s = (r, t)"
  shows "r = Done () \<and> base_header_map b t = base_header_map b s \<and>
     base_status b t = Some (case base_status b s of None \<Rightarrow> c | Some d \<Rightarrow> d)"
  using assms
  by (cases b; cases "w_sent s") (auto simp: conn_write_header_def miss_write_header_def base_status_def split: if_splits)

lemma base_write_effect:
  assumes "base_write b data s = (r, t)"
  shows "(\<exists>e. r = Done e) \<and> base_header_map b t = base_header_map b s \<and>
     base_status b t = Some (case base_status b s of None \<Rightarrow> 200 | Some d \<Rightarrow> d)"
  using assms
  by (cases b)
    (auto simp: conn_write_def miss_write_def miss_write_header_def base_status_def Let_def
      split: if_splits option.splits prod.splits)

lemma writer_base_set_recs:
  "w_recs t = writer_recs w c s \<Longrightarrow> writer_base w t = writer_base w s"
  "w_recs t = w_recs s \<Longrightarrow> writer_base w t = writer_base w s"
  by (cases w; simp add: writer_base_def writer_recs_def)+

lemma base_views_recs [simp]:
  "base_header_map b (t\<lparr>w_recs := R\<rparr>) = base_header_map b t"
  "base_status b (t\<lparr>w_recs := R\<rparr>) = base_status b t"
  by (cases b; simp add: base_status_def)+

interpretation writer: response_writer "writer_header w" "writer_write_header w" "writer_write w"
  "writer_header_map w" "writer_status w" for w
proof unfold_locales
  fix f s
  obtain r t where t: "base_header (writer_base w s) f s = (r, t)" by fastforce
  show "\<exists>t. writer_header w f s = (Done (), t) \<and> writer_header_map w t = f (writer_header_map w s) \<and>
      writer_status w t = writer_status w s"
    using t base_header_effect [OF t] writer_base_set_recs(2) [of t s w]
    by (simp add: writer_header_def writer_header_map_def writer_status_def)
next
  fix c :: int and s
  assume c: "200 \<le> c" "c \<le> 999"
  obtain r t where t: "base_write_header (writer_base w s) c s = (r, t)" by fastforce
  have "final_code c" using c by (simp add: final_code_def)
  then show "\<exists>t. writer_write_header w c s = (Done (), t) \<and> writer_header_map w t = writer_header_map w s \<and>
      writer_status w t = Some (case writer_status w s of None \<Rightarrow> c | Some d \<Rightarrow> d)"
    using t base_write_header_effect [OF c t] writer_base_set_recs(1) [of "t\<lparr>w_recs := writer_recs w c s\<rparr>" w c s]
    by (simp add: writer_operations writer_header_map_def writer_status_def)
next
  fix b s
  obtain r t where t: "base_write (writer_base w s) b s = (r, t)" by fastforce
  show "\<exists>e t. writer_write w b s = (Done e, t) \<and> writer_header_map w t = writer_header_map w s \<and>
      writer_status w t = Some (case writer_status w s of None \<Rightarrow> 200 | Some d \<Rightarrow> d)"
    using t base_write_effect [OF t] writer_base_set_recs(1) [of "t\<lparr>w_recs := writer_recs w 200 s\<rparr>" w 200 s]
    by (auto simp: writer_operations writer_header_map_def writer_status_def)
qed

lemma conn_write_alive:
  assumes "w_conn_err s = None" "w_sent s = Some (c, h)" "body_allowed c" "declared_length h = None"
  shows "conn_write b s = (Done None, s\<lparr>w_body := w_body s @ b\<rparr>)"
  using assms by (simp add: conn_write_def)

interpretation writer: document_writer "writer_header w" "writer_write_header w" "writer_write w"
  "writer_header_map w" "writer_status w" "writer_alive w" w_body conn_header for w
proof unfold_locales
  fix f s r t
  assume "writer_alive w s" "writer_header w f s = (r, t)"
  then show "writer_alive w t \<and> w_body t = w_body s"
    using base_header_effect [of "writer_base w s" f s r t] writer_base_set_recs(2) [of t s w]
    by (simp add: writer_alive_def writer_header_def)
next
  fix s c r t
  assume a: "writer_alive w s" "writer_status w s = None" "200 \<le> c" "c \<le> 999" "writer_write_header w c s = (r, t)"
  then have "final_code c" by (simp add: final_code_def)
  then have t: "t = s\<lparr>w_sent := Some (c, w_header s), w_recs := writer_recs w c s\<rparr>"
    using a by (auto simp: writer_operations writer_alive_def conn_write_header_def writer_status_def base_status_def)
  then show "writer_alive w t \<and> w_body t = w_body s \<and> conn_header t = writer_header_map w s"
    using a(1) writer_base_set_recs(1) [of t w c s]
    by (simp add: writer_alive_def conn_header_def writer_header_map_def)
next
  fix s c b
  assume a: "writer_alive w s" "writer_status w s = Some c" "body_allowed c" "declared_length (conn_header s) = None"
  then obtain h where "w_sent s = Some (c, h)" "conn_header s = h"
    by (auto simp: writer_status_def base_status_def writer_alive_def conn_header_def)
  with a show "\<exists>t. writer_write w b s = (Done None, t) \<and> w_body t = w_body s @ b \<and> conn_header t = conn_header s"
    by (simp add: writer_operations writer_alive_def conn_write_alive conn_header_def)
qed

section \<open>The problem sent for a request\<close>

lemma set_obj_put_subset: "set (obj_put k v m) \<subseteq> insert (k, v) (set m)"
  by (induction k v m rule: obj_put.induct) auto

lemma set_obj_copy_subset: "set (obj_copy d m) \<subseteq> set d \<union> set m"
proof (induction d m rule: obj_copy.induct)
  case (2 d k v m)
  then show ?case using set_obj_put_subset [of k v d] by auto
qed simp

lemma set_put_copy: "kv \<in> set (obj_put k v (obj_copy [] m)) \<Longrightarrow> kv = (k, v) \<or> kv \<in> set m"
  using set_obj_put_subset [of k v "obj_copy [] m"] set_obj_copy_subset [of "[]" m] by auto

lemma encodable_marshal:
  assumes "\<forall>kv \<in> set (p_extras p). encodable (snd kv)"
  shows "\<exists>doc. encode_json (marshal_problem p) = Some doc"
proof -
  have members: "\<forall>kv \<in> set (problem_members p). encodable (snd kv)" by (auto simp: problem_members_def)
  have rb: "\<forall>kv \<in> set (read_back (problem_members p)). encodable (snd kv)"
    unfolding read_back_def
    using set_obj_copy_subset [of "[]" "map (\<lambda>kv. (decode_string (fst kv), to_any (snd kv))) (problem_members p)"]
    by (fastforce simp: problem_members_def split: if_splits)
  have "encodable (marshal_problem p)"
    using members rb assms set_obj_copy_subset [of "read_back (problem_members p)" "p_extras p"]
      set_obj_put_subset [of "''status''" "JInt (p_status p)" "obj_copy (read_back (problem_members p)) (p_extras p)"]
    by (auto simp: marshal_problem_def list_all_iff) fastforce+
  then show ?thesis using encode_json_None [of "marshal_problem p"] by auto
qed

lemma declared_length_content_type [simp]:
  "declared_length (header_set ''Content-Type'' v h) = declared_length h"
  by (simp add: declared_length_def)

lemma problem_write_document:
  assumes "writer_alive w s" "writer_status w s = None" "declared_length (writer_header_map w s) = None"
    "200 \<le> p_status (apply_defaults p)" "p_status (apply_defaults p) \<le> 999" "body_allowed (p_status (apply_defaults p))"
    "\<forall>kv \<in> set (p_extras p). encodable (snd kv)"
  shows "\<exists>t doc. problem_write w p s = (Done None, t) \<and>
    encode_json (marshal_problem (apply_defaults p)) = Some doc \<and>
    writer_status w t = Some (p_status (apply_defaults p)) \<and> w_body t = w_body s @ doc @ [CHR 0x0A] \<and>
    conn_header t = header_set ''Content-Type'' problem_media_type (writer_header_map w s)"
proof -
  have "p_extras (apply_defaults p) = p_extras p" by (simp add: apply_defaults_def Let_def)
  then obtain doc where doc: "encode_json (marshal_problem (apply_defaults p)) = Some doc"
    using encodable_marshal [of "apply_defaults p"] assms(7) by auto
  from writer.send_json_document [OF assms(1,2,4,5,6) _ doc, of problem_media_type] assms(3) doc
  show ?thesis by (auto simp: problem_write_def Let_def)
qed

lemma problem_for_extras:
  assumes "obj_wf (p_extras p)"
  shows "map_of (p_extras (problem_for r p)) k =
    (if k = request_id_member \<and> request_id_from (r_ctx r) \<notin> {None, Some []}
     then map_option JStr (request_id_from (r_ctx r)) else map_of (p_extras p) k)"
  using assms map_of_rev_sorted [of "p_extras p"]
  by (auto simp: problem_for_def Let_def obj_wf_def map_of_obj_copy split: option.splits)

lemma problem_for_fields [simp]:
  "p_type (problem_for r p) = p_type p" "p_title (problem_for r p) = p_title p"
  "p_status (problem_for r p) = p_status p" "p_detail (problem_for r p) = p_detail p"
  "p_instance (problem_for r p) = (if p_instance p = [] then r_path r else p_instance p)"
  by (simp_all add: problem_for_def Let_def split: option.split)

lemma problem_for_encodable:
  "\<forall>kv \<in> set (p_extras p). encodable (snd kv) \<Longrightarrow> \<forall>kv \<in> set (p_extras (problem_for r p)). encodable (snd kv)"
  using set_obj_copy_subset [of "[]" "p_extras p"]
  by (auto simp: problem_for_def Let_def split: option.split dest!: subsetD [OF set_obj_put_subset])

text \<open>
  \<open>WriteFor\<close> on an untouched response sends exactly one document: the
  problem with its defaults applied, instance and correlation id taken from the request, with its
  own status, under the headers set so far and the problem media type, whatever recorder the writer
  goes through.
\<close>

lemma problem_write_for_document:
  assumes "writer_alive w s" "writer_status w s = None" "declared_length (writer_header_map w s) = None"
    "200 \<le> p_status q" "p_status q \<le> 999" "body_allowed (p_status q)"
    "\<forall>kv \<in> set (p_extras p). encodable (snd kv)"
    and q: "q = apply_defaults (problem_for (req a s) p)"
  shows "\<exists>t doc. problem_write_for w a p s = (Done None, t) \<and> encode_json (marshal_problem q) = Some doc \<and>
    writer_status w t = Some (p_status q) \<and> w_body t = w_body s @ doc @ [CHR 0x0A] \<and>
    conn_header t = header_set ''Content-Type'' problem_media_type (writer_header_map w s)"
  using problem_write_document [OF assms(1-3), of "problem_for (req a s) p"] assms(4-7)
    problem_for_encodable [of p "req a s"]
  by (simp add: problem_write_for_def q)

lemma problem_for_wf: "obj_wf (p_extras p) \<Longrightarrow> obj_wf (p_extras (problem_for r p))"
  by (auto simp: problem_for_def Let_def obj_wf_def intro!: obj_put_sorted obj_copy_sorted split: option.split)

lemma apply_defaults_extras [simp]: "p_extras (apply_defaults p) = p_extras p"
  by (simp add: apply_defaults_def Let_def)

text \<open>
  The problem for a request: the correlation id, when the request has a
  non-empty one, is the \<open>request_id\<close> member whatever the extension members say; every other
  extension member is kept; the instance is the request path only when the problem has none; and
  an empty correlation id adds no member.
\<close>

theorem problem_for_request:
  assumes "obj_wf (p_extras p)"
  shows "p_instance (problem_for r p) = (if p_instance p = [] then r_path r else p_instance p) \<and>
    (\<forall>k. map_of (json_members (marshal_problem (problem_for r p))) k =
      (if k = ''status'' then Some (JInt (p_status p))
       else if k = request_id_member \<and> request_id_from (r_ctx r) \<notin> {None, Some []}
       then map_option JStr (request_id_from (r_ctx r))
       else case map_of (p_extras p) k of Some v \<Rightarrow> Some v | None \<Rightarrow> standard_member (problem_for r p) k))"
  using problem_for_extras [OF assms, of r]
  by (auto simp: marshal_lookup(1) [OF problem_for_wf [OF assms]] split: option.splits)

theorem problem_for_request_witness:
  "map_of (json_members (marshal_problem (problem_for example_request
     ((status_problem 404)\<lparr>p_extras := [(''request_id'', JStr ''forged'')]\<rparr>)))) ''request_id'' = Some (JStr ''r1'')"
  using problem_for_request [of "(status_problem 404)\<lparr>p_extras := [(''request_id'', JStr ''forged'')]\<rparr>" example_request]
  by (simp add: obj_wf_def request_id_member_def request_id_from_def example_request_def)

end
