(* ===== verification/Request.thy ===== *)
theory Request imports Write_Problem begin

text \<open>
  Reading a request (\<open>request.go\<close>): the version precondition, a UUID path value, a JSON body and a
  raw upload. The UUID codec, the JSON decoder of the caller's type and the media type parser are
  parameters; every other step is the code's.
\<close>

section \<open>If-Match\<close>

definition integer :: "string \<Rightarrow> bool" where
  "integer s = (let s = trim_prefix s ''-'' in s \<noteq> [] \<and> list_all is_digit s)"

definition invalid_precondition :: "string \<Rightarrow> precondition_error" where
  "invalid_precondition v = \<lparr>pe_missing = False, pe_value = v\<rparr>"

definition missing_precondition :: precondition_error where
  "missing_precondition = \<lparr>pe_missing = True, pe_value = []\<rparr>"

definition if_match :: "request \<Rightarrow> (precondition_error, int) res" where
  "if_match r =
     (let ls = header_values (r_header r) ''If-Match'' in
      if 1 < length ls then Fail (invalid_precondition (join ls '', ''))
      else
        let raw = trim_space (header_get (r_header r) ''If-Match'') in
        if raw = [] then Fail missing_precondition
        else if length raw < 3 \<or> hd raw \<noteq> CHR 0x22 \<or> last raw \<noteq> CHR 0x22 \<or> \<not> integer (butlast (tl raw))
        then Fail (invalid_precondition raw)
        else case parse_int (butlast (tl raw)) of
               None \<Rightarrow> Fail (invalid_precondition raw)
             | Some version \<Rightarrow> Ok version)"

text \<open>The value \<open>webtest.IfMatch\<close> sends for a version.\<close>

definition entity_tag :: "string \<Rightarrow> string" where
  "entity_tag t = CHR 0x22 # t @ [CHR 0x22]"

lemma quoted_iff:
  "(3 \<le> length raw \<and> hd raw = CHR 0x22 \<and> last raw = CHR 0x22) \<longleftrightarrow>
     (\<exists>t. t \<noteq> [] \<and> raw = entity_tag t)"
proof
  assume a: "3 \<le> length raw \<and> hd raw = CHR 0x22 \<and> last raw = CHR 0x22"
  then obtain c rest where raw: "raw = c # rest" "2 \<le> length rest" by (cases raw) auto
  then have "rest \<noteq> []" by auto
  then have "raw = entity_tag (butlast rest)"
    using a raw append_butlast_last_id [of rest] by (simp add: entity_tag_def)
  moreover have "butlast rest \<noteq> []" using raw(2) by (cases rest) auto
  ultimately show "\<exists>t. t \<noteq> [] \<and> raw = entity_tag t" by blast
next
  assume "\<exists>t. t \<noteq> [] \<and> raw = entity_tag t"
  then show "3 \<le> length raw \<and> hd raw = CHR 0x22 \<and> last raw = CHR 0x22"
    by (auto simp: entity_tag_def Suc_le_eq)
qed

lemma entity_tag_parts [simp]:
  "butlast (tl (entity_tag t)) = t" "entity_tag t \<noteq> []" "hd (entity_tag t) = CHR 0x22"
  "last (entity_tag t) = CHR 0x22" "length (entity_tag t) = length t + 2"
  by (simp_all add: entity_tag_def)

lemma entity_tag_inject: "entity_tag t = entity_tag u \<longleftrightarrow> t = u"
  by (simp add: entity_tag_def)

lemma integer_nonempty [simp]: "\<not> integer []"
  by (simp add: integer_def trim_prefix_def)

definition if_match_text :: "request \<Rightarrow> string" where
  "if_match_text r = trim_space (header_get (r_header r) ''If-Match'')"

lemma if_match_Ok:
  "if_match r = Ok v \<longleftrightarrow>
     length (header_values (r_header r) ''If-Match'') \<le> 1 \<and>
     (\<exists>t. if_match_text r = entity_tag t \<and> integer t \<and> parse_int t = Some v)"
proof (cases "length (header_values (r_header r) ''If-Match'') \<le> 1")
  case True
  show ?thesis
  proof (cases "\<exists>t. t \<noteq> [] \<and> if_match_text r = entity_tag t")
    case t: True
    then obtain t where "t \<noteq> []" "if_match_text r = entity_tag t" by blast
    moreover from this have "length t \<noteq> 0" by simp
    ultimately show ?thesis using True
      by (auto simp: if_match_def Let_def if_match_text_def [symmetric] entity_tag_inject split: option.splits)
  next
    case no_tag: False
    let ?raw = "if_match_text r"
    have "\<not> (3 \<le> length ?raw \<and> hd ?raw = CHR 0x22 \<and> last ?raw = CHR 0x22)"
      unfolding quoted_iff by (rule no_tag)
    then have "length ?raw < 3 \<or> hd ?raw \<noteq> CHR 0x22 \<or> last ?raw \<noteq> CHR 0x22" by linarith
    then have "if_match r \<noteq> Ok v"
      using True by (auto simp: if_match_def Let_def if_match_text_def [symmetric])
    moreover have "\<not> (\<exists>t. ?raw = entity_tag t \<and> integer t \<and> parse_int t = Some v)"
      using no_tag integer_nonempty by metis
    ultimately show ?thesis by blast
  qed
qed (simp add: if_match_def)

lemma if_match_Fail:
  "if_match r = Fail e \<Longrightarrow>
     e = (if 1 < length (header_values (r_header r) ''If-Match'')
          then invalid_precondition (join (header_values (r_header r) ''If-Match'') '', '')
          else if if_match_text r = [] then missing_precondition else invalid_precondition (if_match_text r))"
  by (auto simp: if_match_def Let_def if_match_text_def split: if_splits option.splits)

lemma if_match_no_panic: "\<not> is_panic (if_match r)"
  by (simp add: if_match_def Let_def split: option.split)

text \<open>
  Claim C37 (functional). \<open>IfMatch\<close> accepts exactly one header line holding, between spaces, one
  quoted base-10 integer that fits an \<open>int64\<close>, and returns that integer; it never panics; and any
  other request is refused as missing (a 428) precisely when the single line is absent or blank.
\<close>

theorem if_match_grammar:
  "(\<forall>v. if_match r = Ok v \<longleftrightarrow>
      length (header_values (r_header r) ''If-Match'') \<le> 1 \<and>
      (\<exists>t. trim_space (header_get (r_header r) ''If-Match'') = entity_tag t \<and> integer t \<and> parse_int t = Some v)) \<and>
   \<not> is_panic (if_match r) \<and>
   (\<forall>e. if_match r = Fail e \<longrightarrow>
      (precondition_status e = 428 \<longleftrightarrow>
         length (header_values (r_header r) ''If-Match'') \<le> 1 \<and>
         trim_space (header_get (r_header r) ''If-Match'') = []))"
proof (intro conjI allI impI)
  fix v
  show "if_match r = Ok v \<longleftrightarrow> length (header_values (r_header r) ''If-Match'') \<le> 1 \<and>
      (\<exists>t. trim_space (header_get (r_header r) ''If-Match'') = entity_tag t \<and> integer t \<and> parse_int t = Some v)"
    using if_match_Ok [of r v] by (simp only: if_match_text_def)
next
  show "\<not> is_panic (if_match r)" by (rule if_match_no_panic)
next
  fix e
  assume "if_match r = Fail e"
  from if_match_Fail [OF this]
  show "precondition_status e = 428 \<longleftrightarrow> length (header_values (r_header r) ''If-Match'') \<le> 1 \<and>
      trim_space (header_get (r_header r) ''If-Match'') = []"
    by (auto simp: precondition_status_def invalid_precondition_def missing_precondition_def if_match_text_def)
qed

lemma trim_space_entity_tag:
  "list_all visible t \<Longrightarrow> trim_space (entity_tag t) = entity_tag t"
  by (rule trim_space_visible) (simp_all add: visible_def)

theorem if_match_grammar_witness:
  "if_match (example_request\<lparr>r_header := header_set ''If-Match'' (entity_tag ''42'') (\<lambda>_. [])\<rparr>) = Ok 42"
proof -
  have "trim_space (entity_tag ''42'') = entity_tag ''42''"
    by (rule trim_space_entity_tag) (simp add: visible_def)
  then show ?thesis
    by (intro if_match_grammar [THEN conjunct1, rule_format, THEN iffD2])
      (auto intro!: exI [of _ "''42''"] simp: header_values_def header_set_def header_get_def integer_def
        trim_prefix_def has_prefix_def is_digit_def parse_int_def parse_digits_def digits_value_def digit_val_def
        in_range_def int64_def min_int_def max_int_def)
qed

section \<open>Path values\<close>

definition path_value :: "request \<Rightarrow> string \<Rightarrow> string" where
  "path_value r name = (case map_of (r_values r) name of None \<Rightarrow> [] | Some v \<Rightarrow> v)"

definition path_uuid ::
  "(string \<Rightarrow> 'u option) \<Rightarrow> ('u \<Rightarrow> string) \<Rightarrow> request \<Rightarrow> string \<Rightarrow> (path_error, string) res" where
  "path_uuid parse str r name =
     (let raw = path_value r name in
      case parse raw of
        None \<Rightarrow> Fail \<lparr>pa_name = name, pa_value = raw\<rparr>
      | Some u \<Rightarrow> Ok (str u))"

lemma path_value_single: "path_value (r\<lparr>r_values := [(name, v)]\<rparr>) name = v"
  by (simp add: path_value_def)

text \<open>
  Every spelling of one UUID yields one string, its canonical form, which
  reads back as itself; a value that does not parse is refused with the wildcard's name and text.
  The hypothesis is the codec's own round trip.
\<close>

theorem path_uuid_canonical:
  assumes "\<And>u. parse (str u) = Some u"
  shows "(path_uuid parse str r name = Ok v \<longrightarrow> path_uuid parse str (r\<lparr>r_values := [(name, v)]\<rparr>) name = Ok v) \<and>
    (path_uuid parse str r name = Fail e \<longrightarrow>
       e = \<lparr>pa_name = name, pa_value = path_value r name\<rparr> \<and> (\<forall>u. path_value r name \<noteq> str u))"
proof -
  have "path_value r name \<noteq> str u" if "parse (path_value r name) = None" for u
    using that assms [of u] by auto
  then show ?thesis
    using path_value_single [where r = r and name = name] by (auto simp: path_uuid_def Let_def assms split: option.splits)
qed

theorem path_uuid_canonical_witness:
  "path_uuid parse_digits show_nat (example_request\<lparr>r_values := [(''id'', ''7'')]\<rparr>) ''id'' = Ok ''7''"
proof -
  have "path_uuid parse_digits show_nat (example_request\<lparr>r_values := [(''id'', ''007'')]\<rparr>) ''id'' = Ok ''7''"
    by code_simp
  from path_uuid_canonical [of parse_digits show_nat, OF parse_digits_show_nat, THEN conjunct1, rule_format, OF this]
  show ?thesis by simp
qed

section \<open>JSON bodies\<close>

text \<open>
  \<open>decode\<close> is \<open>Decoder.Decode\<close> into the caller's type with unknown fields refused: a value and
  the rest of the body, or an error. \<open>token\<close> is \<open>Decoder.Token\<close> on the rest: the error, if any.
\<close>

definition bad_body :: "string \<Rightarrow> body_error" where
  "bad_body reason = \<lparr>be_too_large = False, be_reason = reason\<rparr>"

definition body_error_of :: "err \<Rightarrow> body_error" where
  "body_error_of e =
     (case as_max_bytes e of
        Some n \<Rightarrow> \<lparr>be_too_large = True, be_reason = ''exceeds the '' @ show_int n @ ''-byte limit''\<rparr>
      | None \<Rightarrow> if error_is e EOF then bad_body ''empty body'' else bad_body (error_text e))"

definition decode_json ::
  "(body \<Rightarrow> (err, 'v \<times> body) res) \<Rightarrow> (body \<Rightarrow> err option) \<Rightarrow> request \<Rightarrow> int \<Rightarrow> (body_error, 'v) res" where
  "decode_json decode token r limit =
     (case decode (max_bytes_reader limit (r_body r)) of
        Panic m \<Rightarrow> Panic m
      | Fail e \<Rightarrow> Fail (body_error_of e)
      | Ok (v, rest) \<Rightarrow>
          (case token rest of
             Some e \<Rightarrow>
               if error_is e EOF then Ok v
               else if as_syntax e = None then Fail (body_error_of e)
               else Fail (bad_body ''unexpected data after the JSON value'')
           | None \<Rightarrow> Fail (bad_body ''unexpected data after the JSON value'')))"

lemma max_bytes_reader_fits: "int (length (b_data b)) \<le> max n 0 \<Longrightarrow> max_bytes_reader n b = b"
  unfolding max_bytes_reader_def by (simp only: leD if_False)

lemma max_bytes_reader_over:
  "max n 0 < int (length (b_data b)) \<Longrightarrow>
     max_bytes_reader n b = \<lparr>b_data = take (nat n) (b_data b), b_end = MaxBytesErr (max n 0)\<rparr>"
  by (simp add: max_bytes_reader_def)

lemma max_bytes_reader_length: "int (length (b_data (max_bytes_reader n b))) \<le> max n 0"
  by (auto simp: max_bytes_reader_def)

text \<open>
  Claim C38 (bounds). \<open>DecodeJSON\<close> accepts only a body within the limit, of which the decoder read a
  value with nothing but the end after it; and a longer body whose end the decoder or the check
  for trailing data runs into is a 413 that names the limit. The hypotheses: the decoder leaves the
  rest of the same body, and a clean end is reported only where the body ended cleanly.
\<close>

theorem decode_json_bounded:
  assumes "\<And>b v rest. decode b = Ok (v, rest) \<Longrightarrow> b_end rest = b_end b"
    and "\<And>b e. token b = Some e \<Longrightarrow> error_is e EOF \<Longrightarrow> error_is (b_end b) EOF"
  shows "(decode_json decode token r limit = Ok v \<longrightarrow>
      int (length (b_data (r_body r))) \<le> max limit 0 \<and>
      (\<exists>rest e. decode (r_body r) = Ok (v, rest) \<and> token rest = Some e \<and> error_is e EOF)) \<and>
    (max limit 0 < int (length (b_data (r_body r))) \<and>
     (let b = max_bytes_reader limit (r_body r) in
      decode b = Fail (b_end b) \<or> (\<exists>v rest. decode b = Ok (v, rest) \<and> token rest = Some (b_end rest))) \<longrightarrow>
      decode_json decode token r limit =
        Fail \<lparr>be_too_large = True, be_reason = ''exceeds the '' @ show_int (max limit 0) @ ''-byte limit''\<rparr>)"
proof (cases "int (length (b_data (r_body r))) \<le> max limit 0")
  case True
  then have "\<not> max limit 0 < int (length (b_data (r_body r)))" by (rule leD)
  moreover have "\<exists>rest e. decode (r_body r) = Ok (v, rest) \<and> token rest = Some e \<and> error_is e EOF"
    if "decode_json decode token r limit = Ok v"
    using that max_bytes_reader_fits [OF True]
    by (auto simp: decode_json_def split: res.splits prod.splits option.splits if_splits)
  ultimately show ?thesis using True by (intro conjI impI) simp_all
next
  case False
  let ?b = "max_bytes_reader limit (r_body r)"
  have e: "b_end ?b = MaxBytesErr (max limit 0)" using max_bytes_reader_over [of limit "r_body r"] False by (simp only: not_le body.simps)
  have "decode_json decode token r limit \<noteq> Ok v"
    using assms(2) assms(1) [of ?b] e
    by (auto simp: decode_json_def split: res.splits prod.splits option.splits if_splits) fastforce+
  moreover have "decode_json decode token r limit =
      Fail \<lparr>be_too_large = True, be_reason = ''exceeds the '' @ show_int (max limit 0) @ ''-byte limit''\<rparr>"
    if "decode ?b = Fail (b_end ?b) \<or> (\<exists>v rest. decode ?b = Ok (v, rest) \<and> token rest = Some (b_end rest))"
    using that e assms(1) [of ?b] by (auto simp: decode_json_def body_error_of_def)
  ultimately show ?thesis by (simp add: Let_def)
qed

theorem decode_json_bounded_witness:
  "\<exists>(decode :: body \<Rightarrow> (err, char \<times> body) res) token.
     decode_json decode token (example_request\<lparr>r_body := \<lparr>b_data = ''7'', b_end = EOF\<rparr>\<rparr>) 8 = Ok CHR ''7'' \<and>
     decode_json decode token (example_request\<lparr>r_body := \<lparr>b_data = ''77'', b_end = EOF\<rparr>\<rparr>) 1 =
       Fail \<lparr>be_too_large = True, be_reason = ''exceeds the 1-byte limit''\<rparr>"
proof -
  define decode :: "body \<Rightarrow> (err, char \<times> body) res" where
    "decode b = (case b_data b of [] \<Rightarrow> Fail (b_end b) | c # cs \<Rightarrow> Ok (c, b\<lparr>b_data := cs\<rparr>))" for b
  define token :: "body \<Rightarrow> err option" where "token b = (if b_data b = [] then Some (b_end b) else None)" for b
  have laws: "decode b = Ok (v, rest) \<Longrightarrow> b_end rest = b_end b" "token b = Some e \<Longrightarrow> error_is e EOF \<Longrightarrow> error_is (b_end b) EOF"
    for b v rest e
    by (auto simp: decode_def token_def split: list.splits if_splits)
  note bounded = decode_json_bounded [of decode token, OF laws]
  have "decode_json decode token (example_request\<lparr>r_body := \<lparr>b_data = ''77'', b_end = EOF\<rparr>\<rparr>) 1 =
      Fail \<lparr>be_too_large = True, be_reason = ''exceeds the '' @ show_int (max 1 0) @ ''-byte limit''\<rparr>"
    by (rule bounded [THEN conjunct2, rule_format])
      (simp_all add: Let_def max_bytes_reader_def decode_def token_def)
  moreover have "decode_json decode token (example_request\<lparr>r_body := \<lparr>b_data = ''7'', b_end = EOF\<rparr>\<rparr>) 8 = Ok CHR ''7''"
    by (simp add: decode_json_def max_bytes_reader_def decode_def token_def)
  moreover have "show_int (max 1 0) = ''1''" by code_simp
  ultimately show ?thesis by (intro exI [of _ decode] exI [of _ token]) (simp only: append.simps simp_thms)
qed

section \<open>Uploads\<close>

record upload =
  up_content_type :: string
  up_media_type :: string
  up_size :: int
  up_body :: body

definition refused_type :: "string \<Rightarrow> upload_error" where
  "refused_type reason = \<lparr>ue_header = ''Content-Type'', ue_too_large = False, ue_reason = reason\<rparr>"

definition read_upload ::
  "(string \<Rightarrow> err + string) \<Rightarrow> request \<Rightarrow> int \<Rightarrow> (upload_error, upload) res" where
  "read_upload parse_media_type r limit =
     (let ct = header_get (r_header r) ''Content-Type'' in
      if ct = [] then Fail (refused_type ''the request requires a Content-Type header'')
      else
        case (case parse_media_type ct of
                Inl e \<Rightarrow> Inl e
              | Inr media \<Rightarrow>
                  if CHR ''/'' \<notin> set media then Inl (Text ''not a type/subtype media type'') else Inr media) of
          Inl e \<Rightarrow> Fail (refused_type (''Content-Type '' @ go_quote ct @ '': '' @ error_text e))
        | Inr media \<Rightarrow>
            if r_length r < 0
            then Fail \<lparr>ue_header = ''Content-Length'', ue_too_large = False,
                   ue_reason = ''the request requires a Content-Length header, not a chunked body''\<rparr>
            else if limit < r_length r
            then Fail \<lparr>ue_header = [], ue_too_large = True,
                   ue_reason = ''the declared '' @ show_int (r_length r) @ '' bytes exceed the '' @ show_int limit @ ''-byte limit''\<rparr>
            else Ok \<lparr>up_content_type = ct, up_media_type = media, up_size = r_length r,
                   up_body = max_bytes_reader limit (r_body r)\<rparr>)"

definition media_ok :: "(string \<Rightarrow> err + string) \<Rightarrow> string \<Rightarrow> bool" where
  "media_ok parse_media_type ct \<longleftrightarrow>
     ct \<noteq> [] \<and> (case parse_media_type ct of Inl _ \<Rightarrow> False | Inr media \<Rightarrow> CHR ''/'' \<in> set media)"


end
