(* ===== verification/Response.thy ===== *)
theory Response imports Request begin

text \<open>
  Building responses (\<open>response.go\<close>): the \<open>Content-Disposition\<close> of a download, the conditional
  request rules, proxying a stored object, and the page envelope. Times are nanoseconds since Go's
  zero time, so \<open>IsZero\<close> is 0 and \<open>Truncate\<close> rounds down from there; formatting and parsing an HTTP
  date are parameters.
\<close>

section \<open>Attachment\<close>

definition attr_char :: "char \<Rightarrow> bool" where
  "attr_char b \<longleftrightarrow>
     byte_in b 0x61 0x7A \<or> byte_in b 0x41 0x5A \<or> byte_in b 0x30 0x39 \<or> b \<in> set ''!#$&+-.^_`|~''"

definition upper_hex :: "nat \<Rightarrow> char" where
  "upper_hex n = (if n < 10 then char_of (48 + n) else char_of (55 + n))"

definition percent_byte :: "char \<Rightarrow> string" where
  "percent_byte b =
     (if attr_char b then [b] else [CHR ''%'', upper_hex (of_char b div 16), upper_hex (of_char b mod 16)])"

text \<open>One round of the loop over the name's runes: what it adds to the fallback, and whether it is plain.\<close>

definition special_rune :: "chunk \<Rightarrow> bool" where
  "special_rune ch =
     (case ch of
        Rune [c] \<Rightarrow> c \<noteq> CHR 0x22 \<and> c \<noteq> backslash \<and> (of_char c < (0x20 :: nat) \<or> (0x7E :: nat) < of_char c \<or> c = CHR ''%'')
      | _ \<Rightarrow> True)"

definition fallback_rune :: "chunk \<Rightarrow> string" where
  "fallback_rune ch =
     (if special_rune ch then ''_''
      else case ch of
             Rune [c] \<Rightarrow> if c = CHR 0x22 \<or> c = backslash then [backslash, c] else [c]
           | _ \<Rightarrow> [])"

definition attachment :: "string \<Rightarrow> string" where
  "attachment name =
     (let runes = utf8_chunks name;
          hdr = ''attachment; filename='' @ [CHR 0x22] @ concat (map fallback_rune runes) @ [CHR 0x22]
      in if list_all (\<lambda>ch. \<not> special_rune ch) runes then hdr
         else hdr @ ''; filename*=UTF-8'' @ [CHR 0x27, CHR 0x27] @
           concat (map percent_byte (to_valid_utf8 name replacement_rune)))"

subsection \<open>A recipient's reading\<close>

text \<open>A quoted string (RFC 9110) from after its opening quote: its text, and what follows it.\<close>

fun unquote :: "string \<Rightarrow> (string \<times> string) option" where
  "unquote [] = None"
| "unquote (c # s) =
     (if c = CHR 0x22 then Some ([], s)
      else if c = CHR 0x5C
      then (case s of [] \<Rightarrow> None | d # s' \<Rightarrow> map_option (\<lambda>(t, r). (d # t, r)) (unquote s'))
      else map_option (\<lambda>(t, r). (c # t, r)) (unquote s))"

definition hex_value :: "char \<Rightarrow> nat option" where
  "hex_value c =
     (if byte_in c 0x30 0x39 then Some (of_char c - 48)
      else if byte_in c 0x41 0x46 then Some (of_char c - 55) else None)"

text \<open>The value of an RFC 8187 extended parameter, after its charset and language.\<close>

fun percent_decode :: "string \<Rightarrow> string option" where
  "percent_decode [] = Some []"
| "percent_decode (c # s) =
     (if c = CHR ''%''
      then (case s of
              h # l # s' \<Rightarrow>
                (case (hex_value h, hex_value l) of
                   (Some x, Some y) \<Rightarrow> map_option ((#) (char_of (16 * x + y))) (percent_decode s')
                 | _ \<Rightarrow> None)
            | _ \<Rightarrow> None)
      else if attr_char c then map_option ((#) c) (percent_decode s) else None)"

lemma nibbles: "(of_char (b :: char) div 16 :: nat) < 16" "(of_char b mod 16 :: nat) < 16"
  using nat_of_char_less_256 [of b] by (simp_all add: less_mult_imp_div_less)

lemma upper_hex_value: "n < 16 \<Longrightarrow> hex_value (upper_hex n) = Some n"
  by (auto simp: hex_value_def upper_hex_def byte_in_def of_char_of take_bit_eq_mod)

lemma attr_not_percent: "attr_char c \<Longrightarrow> c \<noteq> CHR ''%''"
  by (auto simp: attr_char_def byte_in_def)

lemma percent_decode_byte:
  "percent_decode (percent_byte b @ s) = map_option ((#) b) (percent_decode s)"
proof (cases "attr_char b")
  case True
  then show ?thesis using attr_not_percent by (simp add: percent_byte_def)
next
  case False
  then show ?thesis
    using nibbles [of b] by (simp add: percent_byte_def upper_hex_value)
qed

lemma percent_decode_bytes: "percent_decode (concat (map percent_byte s)) = Some s"
  by (induction s) (simp_all add: percent_decode_byte)

definition shown_rune :: "chunk \<Rightarrow> string" where
  "shown_rune ch = (if special_rune ch then ''_'' else chunk_bytes ch)"

lemma not_special: "\<not> special_rune ch \<Longrightarrow> \<exists>c. ch = Rune [c]"
  by (auto simp: special_rune_def split: chunk.splits list.splits)

lemma unquote_fallback:
  "unquote (concat (map fallback_rune chs) @ CHR 0x22 # r) = Some (concat (map shown_rune chs), r)"
proof (induction chs)
  case (Cons ch chs)
  show ?case
  proof (cases "special_rune ch")
    case True
    then show ?thesis using Cons by (simp add: fallback_rune_def shown_rune_def)
  next
    case False
    then obtain c where "ch = Rune [c]" using not_special by blast
    then show ?thesis using Cons False by (simp add: fallback_rune_def shown_rune_def backslash_def)
  qed
qed simp


lemma printable_percent: "list_all (\<lambda>c. byte_in c 0x20 0x7E) (percent_byte b)"
proof -
  have hex: "byte_in (upper_hex n) 0x20 0x7E" if "n < 16" for n
    using that by (auto simp: upper_hex_def byte_in_def of_char_of take_bit_eq_mod)
  moreover have "byte_in b 0x20 0x7E" if "attr_char b"
    using that by (auto simp: attr_char_def byte_in_def)
  ultimately show ?thesis
    using hex nibbles [of b] by (simp add: percent_byte_def byte_in_def)
qed

lemma printable_fallback: "list_all (\<lambda>c. byte_in c 0x20 0x7E) (fallback_rune ch)"
  by (auto simp: fallback_rune_def special_rune_def backslash_def byte_in_def split: chunk.splits list.splits)

lemma list_all_concat_map: "(\<And>x. list_all P (f x)) \<Longrightarrow> list_all P (concat (map f xs))"
  by (induction xs) auto

lemma printable_parts:
  "list_all (\<lambda>c. 0x20 \<le> (of_char c :: nat) \<and> of_char c \<le> (0x7E :: nat)) (concat (map fallback_rune chs))"
  "list_all (\<lambda>c. 0x20 \<le> (of_char c :: nat) \<and> of_char c \<le> (0x7E :: nat)) (concat (map percent_byte bs))"
  using list_all_concat_map [of _ fallback_rune, OF printable_fallback]
    list_all_concat_map [of _ percent_byte, OF printable_percent]
  by (simp_all only: byte_in_def)

text \<open>
  Whatever bytes the name holds, the header value is printable ASCII: it cannot
  end the header line or start another.
\<close>

theorem attachment_printable:
  "list_all (\<lambda>c. byte_in c 0x20 0x7E) (attachment name)"
  using printable_parts by (simp add: attachment_def Let_def byte_in_def)

section \<open>Cache preconditions\<close>

text \<open>
  \<open>noneMatch\<close>'s loop over the header: one round skips separators and a weak prefix, and compares or
  skips one quoted tag.
\<close>

function none_match_scan :: "string \<Rightarrow> string \<Rightarrow> bool" where
  "none_match_scan want hdr =
     (if hdr = [] then False
      else
        let h = trim_prefix (trim_left hdr [CHR '' '', CHR 0x09, CHR '','']) ''W/'' in
        if \<not> has_prefix h [CHR 0x22] then False
        else
          case index_byte (drop 1 h) (CHR 0x22) of
            None \<Rightarrow> False
          | Some e \<Rightarrow> if take (e + 2) h = want then True else none_match_scan want (drop (e + 2) h))"
  by pat_completeness auto
termination
proof (relation "measure (\<lambda>(_, h). length h)")
  fix hdr :: string and h e
  assume "hdr \<noteq> []" and h: "h = trim_prefix (trim_left hdr [CHR '' '', CHR 0x09, CHR '','']) ''W/''"
  have "length h \<le> length hdr"
    unfolding h using length_trim_prefix [of "trim_left hdr [CHR '' '', CHR 0x09, CHR '','']" "''W/''"]
      length_dropWhile_le by (fastforce simp: trim_left_def intro: le_trans)
  then show "((want, drop (e + 2) h), want, hdr) \<in> measure (\<lambda>(_, h). length h)" for want :: string
    using \<open>hdr \<noteq> []\<close> by (cases h) auto
qed auto

declare none_match_scan.simps [simp del]

definition none_match :: "string \<Rightarrow> string \<Rightarrow> bool" where
  "none_match hdr etag =
     (let hdr = trim_space hdr in
      if hdr = ''*'' then True
      else if etag = [] then False
      else none_match_scan (trim_prefix etag ''W/'') hdr)"

text \<open>An entity tag: whether it is weak, and its opaque text.\<close>

definition render_tag :: "bool \<times> string \<Rightarrow> string" where
  "render_tag tg = (if fst tg then ''W/'' else []) @ entity_tag (snd tg)"

lemma trim_prefix_render: "trim_prefix (render_tag tg @ r) ''W/'' = entity_tag (snd tg) @ r"
  by (simp add: render_tag_def entity_tag_def trim_prefix_def)

lemma trim_left_separators:
  assumes "list_all (\<lambda>c. c \<in> set cs) sep" "c \<notin> set cs"
  shows "trim_left (sep @ c # r) cs = c # r"
  using assms by (induction sep) (simp_all add: trim_left_def)

lemma render_tag_start: "\<exists>c t. render_tag tg = c # t \<and> c \<notin> set [CHR '' '', CHR 0x09, CHR '','']"
  by (cases "fst tg") (simp_all add: render_tag_def entity_tag_def)

lemma none_match_scan_tag:
  assumes "list_all (\<lambda>c. c \<in> set [CHR '' '', CHR 0x09, CHR '','']) sep" "CHR 0x22 \<notin> set (snd tg)"
  shows "none_match_scan want (sep @ render_tag tg @ r) \<longleftrightarrow> entity_tag (snd tg) = want \<or> none_match_scan want r"
proof -
  obtain c t where start: "render_tag tg = c # t" "c \<notin> set [CHR '' '', CHR 0x09, CHR '','']"
    using render_tag_start by blast
  have ne: "sep @ render_tag tg @ r \<noteq> []" using start(1) by simp
  have "trim_left (sep @ render_tag tg @ r) [CHR '' '', CHR 0x09, CHR '',''] = render_tag tg @ r"
    using trim_left_separators [OF assms(1) start(2)] by (simp only: start(1) append_Cons)
  then have h: "trim_prefix (trim_left (sep @ render_tag tg @ r) [CHR '' '', CHR 0x09, CHR '','']) ''W/'' =
      entity_tag (snd tg) @ r"
    by (simp only: trim_prefix_render)
  have "index_byte (snd tg @ CHR 0x22 # r) (CHR 0x22) = Some (length (snd tg))"
    by (rule index_byte_append [OF assms(2)])
  moreover have "drop 1 (entity_tag (snd tg) @ r) = snd tg @ CHR 0x22 # r"
    "take (length (snd tg) + 2) (entity_tag (snd tg) @ r) = entity_tag (snd tg)"
    "drop (length (snd tg) + 2) (entity_tag (snd tg) @ r) = r"
    "has_prefix (entity_tag (snd tg) @ r) [CHR 0x22]"
    by (simp_all add: entity_tag_def)
  ultimately show ?thesis
    by (subst none_match_scan.simps) (simp only: h ne Let_def if_False option.case not_True_eq_False split: if_split, blast)
qed

lemma none_match_scan_list:
  assumes "\<forall>tg \<in> set tags. CHR 0x22 \<notin> set (snd tg)"
  shows "none_match_scan want (concat (map (\<lambda>tg. '', '' @ render_tag tg) tags)) \<longleftrightarrow>
    (\<exists>tg \<in> set tags. entity_tag (snd tg) = want)"
  using assms
proof (induction tags)
  case (Cons tg tags)
  then show ?case
    using none_match_scan_tag [of "'', ''" tg want "concat (map (\<lambda>tg. '', '' @ render_tag tg) tags)"] by simp
qed (simp add: none_match_scan.simps)

lemma join_Cons: "join (x # xs) sep = x @ concat (map (\<lambda>y. sep @ y) xs)"
  by (induction xs arbitrary: x) simp_all

lemma trim_prefix_tag: "trim_prefix (render_tag tg) ''W/'' = entity_tag (snd tg)"
  using trim_prefix_render [of tg "[]"] by simp

lemma visible_tag: "render_tag tg \<noteq> []" "visible (hd (render_tag tg))" "visible (last (render_tag tg))"
  by (cases "fst tg"; simp add: render_tag_def visible_def entity_tag_def)+

lemma render_list_visible:
  assumes "tags \<noteq> []"
  shows "join (map render_tag tags) '', '' \<noteq> [] \<and> visible (hd (join (map render_tag tags) '', '')) \<and>
    visible (last (join (map render_tag tags) '', ''))"
  using assms
proof (induction tags)
  case (Cons tg tags)
  then show ?case
    using visible_tag [of tg] by (cases "tags = []") (auto simp: join_Cons neq_Nil_conv)
qed simp

text \<open>
  On a well-formed list of entity tags the scan is weak comparison with each
  of them (RFC 9110): it matches exactly when one of the listed tags has the object's opaque text,
  weak or not on either side, even where that text contains a comma.
\<close>

lemma none_match_tags:
  assumes "tags \<noteq> []" "\<forall>tg \<in> set tags. CHR 0x22 \<notin> set (snd tg)"
  shows "none_match (join (map render_tag tags) '', '') (render_tag etag) \<longleftrightarrow>
    (\<exists>tg \<in> set tags. snd tg = snd etag)"
proof -
  let ?h = "join (map render_tag tags) '', ''"
  obtain tg rest where tags: "tags = tg # rest" using assms(1) by (cases tags) auto
  have trim: "trim_space ?h = ?h"
    using render_list_visible [OF assms(1)] by (intro trim_space_visible) auto
  have "?h \<noteq> ''*''"
    unfolding tags by (cases "fst tg") (simp_all add: join_Cons render_tag_def entity_tag_def)
  moreover have "?h = [] @ render_tag tg @ concat (map (\<lambda>tg. '', '' @ render_tag tg) rest)"
    by (simp add: tags join_Cons comp_def)
  moreover have "none_match_scan (entity_tag (snd etag))
      ([] @ render_tag tg @ concat (map (\<lambda>tg. '', '' @ render_tag tg) rest)) \<longleftrightarrow>
      (\<exists>tg \<in> set tags. snd tg = snd etag)"
    using assms(2) none_match_scan_tag [of "[]" tg "entity_tag (snd etag)"] none_match_scan_list [of rest]
    by (simp add: tags entity_tag_inject)
  ultimately show ?thesis
    using visible_tag(1) [of etag] trim by (simp only: none_match_def Let_def trim_prefix_tag if_False)
qed

record object_info =
  o_content_type :: string
  o_size :: int
  o_etag :: string
  o_modified :: int

definition truncate_second :: "int \<Rightarrow> int" where
  "truncate_second t = t - t mod 1000000000"

definition not_modified :: "(string \<Rightarrow> int option) \<Rightarrow> request \<Rightarrow> object_info \<Rightarrow> bool" where
  "not_modified parse_time r ob =
     (if r_method r \<noteq> ''GET'' \<and> r_method r \<noteq> ''HEAD'' then False
      else
        let inm = header_get (r_header r) ''If-None-Match'' in
        if inm \<noteq> [] then none_match inm (o_etag ob)
        else
          let ims = header_get (r_header r) ''If-Modified-Since'' in
          if ims = [] \<or> o_modified ob = 0 then False
          else case parse_time ims of
                 None \<Rightarrow> False
               | Some since \<Rightarrow> \<not> since < truncate_second (o_modified ob))"

section \<open>Proxying an object\<close>

definition set_validators :: "(int \<Rightarrow> string) \<Rightarrow> object_info \<Rightarrow> header \<Rightarrow> header" where
  "set_validators format_time ob h =
     (let h = (if o_etag ob \<noteq> [] then header_set ''ETag'' (o_etag ob) h else h)
      in if o_modified ob \<noteq> 0 then header_set ''Last-Modified'' (format_time (o_modified ob)) h else h)"

definition representation :: "string list" where
  "representation =
     [''Cache-Control'', ''Content-Disposition'', ''Content-Encoding'', ''Content-Length'', ''Content-Range'',
      ''ETag'', ''Expires'', ''Last-Modified'']"

definition clear_representation :: "header \<Rightarrow> header" where
  "clear_representation h = header_set ''Cache-Control'' ''no-store'' (fold header_del representation h)"

definition set_content :: "object_info \<Rightarrow> header \<Rightarrow> header" where
  "set_content ob h =
     (let ct = (if o_content_type ob = [] then ''application/octet-stream'' else o_content_type ob);
          h = header_set ''Content-Type'' ct h;
          h = (if 0 \<le> o_size ob then header_set ''Content-Length'' (show_int (o_size ob)) h else h)
      in header_set ''X-Content-Type-Options'' ''nosniff'' h)"

text \<open>
  \<open>WriteObject\<close>. The opener returns the object's bytes and what closes them. Closing is deferred, so
  it also runs when the copy fails; its error is dropped.
\<close>

definition send_object :: "writer \<Rightarrow> object_info \<Rightarrow> body option \<Rightarrow> err option go" where
  "send_object w ob src =
     go_seq (writer_header w (set_content ob))
       (go_seq (writer_write_header w 200)
         (case src of None \<Rightarrow> go_return None | Some b \<Rightarrow> writer_copy w b))"

definition write_object ::
  "(string \<Rightarrow> int option) \<Rightarrow> (int \<Rightarrow> string) \<Rightarrow> writer \<Rightarrow> nat \<Rightarrow> object_info \<Rightarrow>
   (err + body \<times> unit go) go \<Rightarrow> err option go" where
  "write_object parse_time format_time w a ob open_object =
     go_seq (writer_header w (set_validators format_time ob))
       (go_bind (go_read (req a)) (\<lambda>r.
         if not_modified parse_time r ob then go_seq (writer_write_header w 304) (go_return None)
         else if r_method r = ''HEAD'' then send_object w ob None
         else go_bind open_object (\<lambda>opened.
           case opened of
             Inl e \<Rightarrow> go_seq (writer_header w clear_representation) (go_return (Some e))
           | Inr (b, close) \<Rightarrow> go_defer (send_object w ob (Some b)) close)))"

subsection \<open>What a response carries\<close>

lemma request_unchanged: "same_outside s t \<Longrightarrow> req a t = req a s"
  by (simp add: same_outside_def req_def)

text \<open>The three ways \<open>write_object\<close> goes on once the validators are set.\<close>

lemma write_object_cases:
  assumes "writer_header w (set_validators format_time ob) s = (Done (), u)"
  shows "not_modified parse_time (req a s) ob \<Longrightarrow>
      write_object parse_time format_time w a ob op s = go_seq (writer_write_header w 304) (go_return None) u"
    and "\<not> not_modified parse_time (req a s) ob \<Longrightarrow> r_method (req a s) = ''HEAD'' \<Longrightarrow>
      write_object parse_time format_time w a ob op s = send_object w ob None u"
    and "\<not> not_modified parse_time (req a s) ob \<Longrightarrow> r_method (req a s) \<noteq> ''HEAD'' \<Longrightarrow>
      write_object parse_time format_time w a ob op s =
        go_bind op (\<lambda>opened.
          case opened of
            Inl e \<Rightarrow> go_seq (writer_header w clear_representation) (go_return (Some e))
          | Inr (b, close) \<Rightarrow> go_defer (send_object w ob (Some b)) close) u"
  using request_unchanged [OF writer_same_outside(1) [OF assms], of a]
  by (simp_all add: write_object_def go_seq_Done [where m = "writer_header w (set_validators format_time ob)" and s = s, OF assms])

lemma header_step: "\<exists>t. writer_header w f s = (Done (), t) \<and> same_outside s t"
  using writer.hdr_changes [of w f s] writer_same_outside(1) by blast

lemma write_header_step:
  "200 \<le> c \<Longrightarrow> c \<le> 999 \<Longrightarrow> \<exists>t. writer_write_header w c s = (Done (), t) \<and> same_outside s t"
  using writer.wh_commits [of c w s] writer_same_outside(2) by blast

lemma copy_step: "\<exists>e t. writer_copy w b s = (Done e, t) \<and> same_outside s t"
proof -
  obtain e t where "writer_copy w b s = (Done e, t)"
    using base_copy_Done [of "writer_base w s" b s] by (auto simp: writer_operations)
  then show ?thesis using writer_same_outside(4) by blast
qed

lemma send_object_step: "\<exists>e t. send_object w ob src s = (Done e, t) \<and> same_outside s t"
proof -
  obtain t where t: "writer_header w (set_content ob) s = (Done (), t)" "same_outside s t"
    using header_step by blast
  obtain u where u: "writer_write_header w 200 t = (Done (), u)" "same_outside t u"
    using write_header_step [of 200 w t] by auto
  obtain e v where v: "(case src of None \<Rightarrow> go_return None | Some b \<Rightarrow> writer_copy w b) u = (Done e, v)" "same_outside u v"
    using copy_step [of w "the src" u] by (cases src) auto
  have "send_object w ob src s = (Done e, v)"
    using t(1) u(1) v(1) by (simp add: send_object_def go_simps)
  moreover have "same_outside s v" using t(2) u(2) v(2) by (blast intro: same_outside_trans)
  ultimately show ?thesis by blast
qed

text \<open>Appending to the trace: how an opener and a closer show that they ran.\<close>

definition emit :: "event \<Rightarrow> unit go" where
  "emit e = go_modify (\<lambda>s. s\<lparr>w_trace := w_trace s @ [e]\<rparr>)"

definition traced_open :: "body \<Rightarrow> (err + body \<times> unit go) go" where
  "traced_open b = go_seq (emit Opened) (go_return (Inr (b, emit Closed)))"


text \<open>An opener whose outcome is known and which leaves the response alone.\<close>

definition opens_as :: "(err + body \<times> unit go) go \<Rightarrow> err + body \<times> unit go \<Rightarrow> bool" where
  "opens_as op res \<longleftrightarrow>
     (\<forall>u. \<exists>v. op u = (Done res, v) \<and> w_header v = w_header u \<and> w_sent v = w_sent u \<and> w_body v = w_body u \<and>
        w_conn_err v = w_conn_err u \<and> w_recs v = w_recs u)"

text \<open>
  When the object cannot be opened nothing has been committed, the error is
  returned for the error writer, and no representation header is left to describe the problem in
  the object's place, \<open>Cache-Control\<close> being \<open>no-store\<close>; other headers are kept.
\<close>

theorem write_object_open_fails:
  assumes "writer_base w s = Conn" "w_sent s = None" "\<not> not_modified parse_time (req a s) ob"
    "r_method (req a s) \<noteq> ''HEAD''" "opens_as op (Inl e)"
  shows "\<exists>t. write_object parse_time format_time w a ob op s = (Done (Some e), t) \<and>
    w_sent t = None \<and> w_body t = w_body s \<and> w_recs t = w_recs s \<and>
    header_get (w_header t) ''Cache-Control'' = ''no-store'' \<and>
    (\<forall>k. canonical_key k \<noteq> ''Cache-Control'' \<longrightarrow>
       header_get (w_header t) k =
         (if canonical_key k \<in> canonical_key ` set representation then [] else header_get (w_header s) k))"
proof -
  let ?u = "s\<lparr>w_header := set_validators format_time ob (w_header s)\<rparr>"
  have u: "writer_header w (set_validators format_time ob) s = (Done (), ?u)"
    using assms(1) by (simp add: conn_steps)
  obtain v where v: "op ?u = (Done (Inl e), v)" "w_header v = w_header ?u" "w_sent v = None" "w_recs v = w_recs s"
    "w_body v = w_body s"
    using assms(2,5) by (fastforce simp: opens_as_def)
  have base: "writer_base w v = Conn"
    using assms(1) writer_base_set_recs(2) [OF v(4), of w] by simp
  have "write_object parse_time format_time w a ob op s =
      (Done (Some e), v\<lparr>w_header := clear_representation (w_header ?u)\<rparr>)"
    using v base by (simp add: write_object_cases(3) [OF u assms(3,4)] go_simps conn_steps)
  moreover have "header_get (clear_representation (w_header ?u)) k =
      (if canonical_key k = ''Cache-Control'' then ''no-store''
       else if canonical_key k \<in> canonical_key ` set representation then [] else header_get (w_header s) k)" for k
    by (auto simp: clear_representation_def representation_def set_validators_def Let_def)
  ultimately show ?thesis using v by auto
qed

theorem write_object_open_fails_witness:
  "\<exists>t. write_object (\<lambda>_. None) (\<lambda>_. ''now'') (Base Conn) 0
      \<lparr>o_content_type = [], o_size = 3, o_etag = ''x'', o_modified = 5\<rparr> (go_return (Inl (Text ''gone''))) example_world =
      (Done (Some (Text ''gone'')), t) \<and> w_sent t = None \<and> header_get (w_header t) ''ETag'' = []"
proof -
  let ?ob = "\<lparr>o_content_type = [], o_size = 3, o_etag = ''x'', o_modified = 5\<rparr>"
  obtain t where t: "write_object (\<lambda>_. None) (\<lambda>_. ''now'') (Base Conn) 0 ?ob (go_return (Inl (Text ''gone''))) example_world =
      (Done (Some (Text ''gone'')), t)" "w_sent t = None"
      "\<forall>k. canonical_key k \<noteq> ''Cache-Control'' \<longrightarrow>
       header_get (w_header t) k =
         (if canonical_key k \<in> canonical_key ` set representation then [] else header_get (w_header example_world) k)"
    using write_object_open_fails [of "Base Conn" example_world "\<lambda>_. None" 0 ?ob
        "go_return (Inl (Text ''gone''))" "Text ''gone''" "\<lambda>_. ''now''"]
    by (auto simp: writer_base_def opens_as_def not_modified_def Let_def example_world_def example_request_def
        header_get_def req_def)
  then show ?thesis by (auto simp: representation_def)
qed

definition object_header :: "(int \<Rightarrow> string) \<Rightarrow> object_info \<Rightarrow> header \<Rightarrow> header" where
  "object_header format_time ob h = set_content ob (set_validators format_time ob h)"

lemma header_get_content:
  "header_get (set_content ob h) k =
     (if canonical_key k = ''X-Content-Type-Options'' then ''nosniff''
      else if canonical_key k = ''Content-Length'' \<and> 0 \<le> o_size ob then show_int (o_size ob)
      else if canonical_key k = ''Content-Type''
      then (if o_content_type ob = [] then ''application/octet-stream'' else o_content_type ob)
      else header_get h k)"
  by (simp add: set_content_def Let_def)

lemma header_get_validators:
  "header_get (set_validators format_time ob h) k =
     (if canonical_key k = ''Last-Modified'' \<and> o_modified ob \<noteq> 0 then format_time (o_modified ob)
      else if canonical_key k = ''Etag'' \<and> o_etag ob \<noteq> [] then o_etag ob
      else header_get h k)"
  by (simp add: set_validators_def Let_def)

lemma declared_length_object:
  assumes "declared_length h = None" "int64 (o_size ob)"
  shows "declared_length (object_header format_time ob h) = (if 0 \<le> o_size ob then Some (o_size ob) else None)"
  using assms by (simp add: declared_length_def object_header_def header_get_content header_get_validators parse_int_show_int)

lemma send_object_conn:
  assumes "writer_base w s = Conn" "w_sent s = None"
  shows "send_object w ob src s =
    (let h = set_content ob (w_header s); u = s\<lparr>w_header := h, w_sent := Some (200, h), w_recs := writer_recs w 200 s\<rparr>
     in case src of None \<Rightarrow> (Done None, u)
        | Some b \<Rightarrow> set_recs (writer_recs w 200 u) (base_copy Conn b u))"
proof -
  let ?t = "s\<lparr>w_header := set_content ob (w_header s)\<rparr>"
  let ?u = "?t\<lparr>w_sent := Some (200, w_header ?t), w_recs := writer_recs w 200 s\<rparr>"
  have recs: "writer_recs w 200 ?t = writer_recs w 200 s" by (cases w) (simp_all add: writer_recs_def)
  have "writer_header w (set_content ob) s = (Done (), ?t)"
    using assms(1) by (simp add: conn_steps)
  moreover have "writer_write_header w 200 ?t = (Done (), ?u)"
    using conn_steps(2) [of w ?t 200] assms recs by simp
  moreover have "writer_copy w b ?u = set_recs (writer_recs w 200 ?u) (base_copy Conn b ?u)" for b
    using assms(1) writer_base_set_recs(1) [of ?u w 200 s] by (intro conn_steps(4)) simp
  ultimately show ?thesis
    by (auto simp: send_object_def go_simps Let_def split: option.split)
qed

lemma copy_whole:
  assumes "w_sent u = Some (200, h)" "w_conn_err u = None" "w_body u = []" "b_end b = EOF"
    "case declared_length h of None \<Rightarrow> True | Some n \<Rightarrow> int (length (b_data b)) \<le> n"
  shows "base_copy Conn b u = (Done None, u\<lparr>w_body := b_data b\<rparr>)"
  using assms by (auto simp: base_copy_def go_bind_def conn_write_def body_allowed_def split: option.splits)

lemma write_object_sends:
  assumes "writer_alive w s" "w_sent s = None" "w_body s = []" "declared_length (w_header s) = None"
    "\<not> not_modified parse_time (req a s) ob" "opens_as op (Inr (b, go_return ()))"
    "b_end b = EOF" "int64 (o_size ob)" "o_size ob < 0 \<or> o_size ob = int (length (b_data b))"
  shows "\<exists>t. write_object parse_time format_time w a ob op s = (Done None, t) \<and>
    w_sent t = Some (200, object_header format_time ob (w_header s)) \<and>
    w_body t = (if r_method (req a s) = ''HEAD'' then [] else b_data b)"
proof -
  let ?u = "s\<lparr>w_header := set_validators format_time ob (w_header s)\<rparr>"
  let ?h = "object_header format_time ob (w_header s)"
  have conn: "writer_base w s = Conn" "w_conn_err s = None" using assms(1) by (simp_all add: writer_alive_def)
  have u: "writer_header w (set_validators format_time ob) s = (Done (), ?u)"
    using conn by (simp add: conn_steps)
  show ?thesis
  proof (cases "r_method (req a s) = ''HEAD''")
    case True
    then show ?thesis
      using assms conn by (simp add: write_object_cases(2) [OF u] send_object_conn object_header_def Let_def)
  next
    case False
    obtain v where v: "op ?u = (Done (Inr (b, go_return ())), v)" "w_header v = w_header ?u" "w_sent v = None"
      "w_recs v = w_recs s" "w_body v = []" "w_conn_err v = None"
      using assms(2,3,6) conn(2) by (fastforce simp: opens_as_def)
    have base: "writer_base w v = Conn" using conn writer_base_set_recs(2) [OF v(4), of w] by simp
    let ?x = "v\<lparr>w_header := ?h, w_sent := Some (200, ?h), w_recs := writer_recs w 200 v\<rparr>"
    have "base_copy Conn b ?x = (Done None, ?x\<lparr>w_body := b_data b\<rparr>)"
      using assms(7-9) v declared_length_object [OF assms(4,8)] by (intro copy_whole [of _ ?h]) auto
    then show ?thesis
      using v base False assms(5)
      by (simp add: write_object_cases(3) [OF u] go_simps send_object_conn go_defer_def object_header_def Let_def)
  qed
qed



text \<open>
  Claim C20 (roundtrip). A client that sends back the validator a 200 carried, its \<open>ETag\<close> as
  \<open>If-None-Match\<close> or, for an object without one, its \<open>Last-Modified\<close> as \<open>If-Modified-Since\<close>, gets a
  304 without a body, and the object is not opened. The hypothesis on times is that an HTTP date
  keeps the second.
\<close>

theorem write_object_revalidates:
  assumes "writer_base w s = Conn" "w_sent s = None" "r_method (req a s) \<in> {''GET'', ''HEAD''}"
    "parse_time (format_time (o_modified ob)) = Some (truncate_second (o_modified ob))"
    "format_time (o_modified ob) \<noteq> []"
    and h: "h = object_header format_time ob h0"
    and validator: "(\<exists>tg. o_etag ob = render_tag tg \<and> CHR 0x22 \<notin> set (snd tg)) \<and>
          header_get (r_header (req a s)) ''If-None-Match'' = header_get h ''ETag'' \<or>
        o_etag ob = [] \<and> o_modified ob \<noteq> 0 \<and> header_get (r_header (req a s)) ''If-None-Match'' = [] \<and>
          header_get (r_header (req a s)) ''If-Modified-Since'' = header_get h ''Last-Modified''"
  shows "\<exists>t. write_object parse_time format_time w a ob op s = (Done None, t) \<and>
    w_sent t = Some (304, set_validators format_time ob (w_header s)) \<and> w_body t = w_body s \<and> w_trace t = w_trace s"
proof -
  have "none_match (render_tag tg) (render_tag tg)" if "CHR 0x22 \<notin> set (snd tg)" for tg
    using none_match_tags [of "[tg]" tg] that by simp
  then have nm: "not_modified parse_time (req a s) ob"
    using assms(3-5) validator visible_tag(1) visible_tag(1) [symmetric]
    by (auto simp: not_modified_def Let_def h object_header_def header_get_content header_get_validators)
  let ?u = "s\<lparr>w_header := set_validators format_time ob (w_header s)\<rparr>"
  have u: "writer_header w (set_validators format_time ob) s = (Done (), ?u)"
    using assms(1) by (simp add: conn_steps)
  show ?thesis
    using assms(1,2) by (simp add: write_object_cases(1) [OF u nm] go_simps conn_steps(2))
qed

theorem write_object_revalidates_witness:
  "\<exists>t. write_object (\<lambda>_. Some 7000000000) (\<lambda>_. ''now'') (Base Conn) 0
      \<lparr>o_content_type = [], o_size = 3, o_etag = [], o_modified = 7000000001\<rparr> (go_return (Inl EOF))
      (example_world\<lparr>w_reqs := (\<lambda>_. example_request\<lparr>r_header := header_set ''If-Modified-Since'' ''now'' (\<lambda>_. [])\<rparr>)\<rparr>) =
      (Done None, t) \<and> map_option fst (w_sent t) = Some 304 \<and> w_body t = []"
proof -
  let ?s = "example_world\<lparr>w_reqs := (\<lambda>_. example_request\<lparr>r_header := header_set ''If-Modified-Since'' ''now'' (\<lambda>_. [])\<rparr>)\<rparr>"
  let ?ob = "\<lparr>o_content_type = [], o_size = 3, o_etag = [], o_modified = 7000000001\<rparr>"
  have "\<exists>t. write_object (\<lambda>_. Some 7000000000) (\<lambda>_. ''now'') (Base Conn) 0 ?ob (go_return (Inl EOF)) ?s = (Done None, t) \<and>
      w_sent t = Some (304, set_validators (\<lambda>_. ''now'') ?ob (w_header ?s)) \<and> w_body t = w_body ?s \<and> w_trace t = w_trace ?s"
    by (rule write_object_revalidates [of _ _ _ _ _ _ "object_header (\<lambda>_. ''now'') ?ob (\<lambda>_. [])" "\<lambda>_. []"])
      (simp_all add: writer_base_def example_world_def example_request_def req_def truncate_second_def
        header_get_content header_get_validators object_header_def, simp add: header_get_def)
  then show ?thesis by (auto simp: example_world_def)
qed

section \<open>Pages\<close>

record 'a page =
  pg_items :: "'a list"
  pg_page :: int
  pg_size :: int
  pg_total :: "int option"
  pg_more :: bool
  pg_next :: string

record paging =
  pa_total :: "int option"
  pa_more :: bool
  pa_next :: string

text \<open>A nil slice is \<open>None\<close>; the total is copied out of the caller's pointer.\<close>

definition new_page :: "'a list option \<Rightarrow> query \<Rightarrow> paging \<Rightarrow> 'a page" where
  "new_page items q p =
     \<lparr>pg_items = (case items of None \<Rightarrow> [] | Some xs \<Rightarrow> xs), pg_page = q_page q, pg_size = q_size q,
      pg_total = pa_total p, pg_more = pa_more p, pg_next = pa_next p\<rparr>"

text \<open>The document \<open>encoding/json\<close> writes for the envelope, by its tags.\<close>

definition page_json :: "('a \<Rightarrow> json) \<Rightarrow> 'a page \<Rightarrow> json" where
  "page_json item pg =
     JObj ([(''items'', JArr (map item (pg_items pg)))] @
       (if pg_page pg = 0 then [] else [(''page'', JInt (pg_page pg))]) @
       [(''size'', JInt (pg_size pg))] @
       (case pg_total pg of None \<Rightarrow> [] | Some n \<Rightarrow> [(''total'', JInt n)]) @
       [(''more'', JBool (pg_more pg))] @
       (if pg_next pg = [] then [] else [(''next'', JStr (pg_next pg))]))"

text \<open>
  The envelope of a read for an accepted query: items always an array; the page
  number exactly when the query was not under a cursor, and then at least 1; a total exactly when
  one was counted, 0 included; the size within the caller's limits.
\<close>

theorem page_members:
  assumes "parse_query ps l = Ok q" "l_max_size l \<le> max_int"
  shows "(\<exists>xs. map_of (json_members (page_json item (new_page items q p))) ''items'' = Some (JArr xs)) \<and>
    map_of (json_members (page_json item (new_page items q p))) ''page'' =
      (if q_cursor q = [] then Some (JInt (q_page q)) else None) \<and>
    map_of (json_members (page_json item (new_page items q p))) ''total'' = map_option JInt (pa_total p) \<and>
    map_of (json_members (page_json item (new_page items q p))) ''next'' =
      (if pa_next p = [] then None else Some (JStr (pa_next p))) \<and>
    (\<exists>n. map_of (json_members (page_json item (new_page items q p))) ''size'' = Some (JInt n) \<and>
      1 \<le> n \<and> n \<le> l_max_size l)"
  using parse_query_page_size [OF assms]
  by (auto simp: page_json_def new_page_def split: option.split if_splits)

theorem page_members_witness:
  "map_of (json_members (page_json JInt (new_page None
     \<lparr>q_page = 3, q_size = 50, q_sort = [], q_filters = [], q_cursor = []\<rparr>
     \<lparr>pa_total = Some 0, pa_more = False, pa_next = []\<rparr>))) ''page'' = Some (JInt 3)"
proof -
  let ?q = "[(''page'', [''3'']), (''size'', [''50''])]"
  let ?l = "\<lparr>l_default_size = 20, l_max_size = 100, l_cursor = False\<rparr>"
  have "parse_query ?q ?l = Ok \<lparr>q_page = 3, q_size = 50, q_sort = [], q_filters = [], q_cursor = []\<rparr>" by code_simp
  from page_members [OF this, of JInt None] show ?thesis by (simp add: max_int_def)
qed

end
