(* ===== verification/Error_Writer.thy ===== *)
theory Error_Writer imports Response begin

text \<open>
  The error writer (\<open>errorwriter.go\<close>): the mapping from a returned error to the problem that reports
  it, the rule for putting the error's text on the wire, and the record of a server error's cause.
  A matcher is a function from an error to the problem it claims it for.
\<close>

section \<open>The mapping\<close>

type_synonym problem_matcher = "err \<Rightarrow> problem option"

record error_writer =
  ew_matchers :: "problem_matcher list"
  ew_detail :: "int list"

text \<open>\<open>logger\<close> says whether the caller passed one.\<close>

definition new_error_writer :: "bool \<Rightarrow> problem_matcher list \<Rightarrow> (err, error_writer) res" where
  "new_error_writer logger matchers =
     (if \<not> logger then Panic ''web: NewErrorWriter requires a *slog.Logger''
      else Ok \<lparr>ew_matchers = matchers, ew_detail = [400, 411, 413, 415, 428]\<rparr>)"

definition add_detail :: "int list \<Rightarrow> error_writer \<Rightarrow> error_writer" where
  "add_detail statuses ew = ew\<lparr>ew_detail := fold List.insert statuses (ew_detail ew)\<rparr>"

fun first_match :: "problem_matcher list \<Rightarrow> err \<Rightarrow> problem option" where
  "first_match [] e = None"
| "first_match (m # ms) e = (case m e of Some p \<Rightarrow> Some p | None \<Rightarrow> first_match ms e)"

definition matched_problem :: "error_writer \<Rightarrow> err \<Rightarrow> problem \<times> bool" where
  "matched_problem ew e =
     (case first_match (ew_matchers ew) e of
        Some p \<Rightarrow> (with_status p, False)
      | None \<Rightarrow> (status_problem 500, False))"

text \<open>The problem, and whether it was returned whole.\<close>

definition error_problem :: "error_writer \<Rightarrow> err \<Rightarrow> problem \<times> bool" where
  "error_problem ew e =
     (case own_status e of
        Some st \<Rightarrow> (status_problem st, False)
      | None \<Rightarrow>
          (case e of
             ProblemVal p \<Rightarrow> (with_status p, True)
           | ProblemPtr (Some p) \<Rightarrow> (with_status p, True)
           | _ \<Rightarrow> matched_problem ew e))"

definition ew_problem :: "error_writer \<Rightarrow> err \<Rightarrow> problem" where
  "ew_problem ew e = fst (error_problem ew e)"

section \<open>Logging\<close>

definition handle_attrs :: "request \<Rightarrow> int \<Rightarrow> err \<Rightarrow> (string \<times> attr_value) list" where
  "handle_attrs r status e =
     [(''http.request.method'', AStr (r_method r)), (''url.path'', AStr (r_path r)),
      (''client.address'', AStr (r_remote r)), (''http.response.status_code'', AInt status)] @
     (case request_id_from (r_ctx r) of
        Some rid \<Rightarrow> if rid \<noteq> [] then [(''request_id'', AStr rid)] else []
      | None \<Rightarrow> []) @
     [(''error'', AStr (error_text e))]"

definition cause_level :: "request \<Rightarrow> int \<Rightarrow> err \<Rightarrow> level" where
  "cause_level r status e =
     (if error_is e Canceled \<and> cx_err (r_ctx r) \<noteq> None then Debug
      else if status = 503 then Warn else Error)"

definition log_cause :: "nat \<Rightarrow> int \<Rightarrow> err \<Rightarrow> unit go" where
  "log_cause a status e s =
     log_attrs (cause_level (req a s) status e) ''server error response'' (handle_attrs (req a s) status e) s"

section \<open>Writing\<close>

definition with_detail :: "error_writer \<Rightarrow> err \<Rightarrow> problem \<times> bool \<Rightarrow> problem" where
  "with_detail ew e pw =
     (let (p, whole) = pw in
      if \<not> whole \<and> p_detail p = [] \<and> p_status p \<in> set (ew_detail ew)
      then p\<lparr>p_detail := error_text e\<rparr> else p)"

definition ew_write :: "error_writer \<Rightarrow> writer \<Rightarrow> nat \<Rightarrow> err \<Rightarrow> err option go" where
  "ew_write ew w a e =
     (let (p, whole) = error_problem ew e in
      go_seq (if 500 \<le> p_status p then log_cause a (p_status p) e else go_return ())
        (problem_write_for w a (with_detail ew e (p, whole))))"

section \<open>Properties\<close>

lemma with_status_status: "p_status (with_status p) = (if p_status p = 0 then 500 else p_status p)"
  by (simp add: with_status_def)

lemma own_status_nonzero: "own_status e = Some st \<Longrightarrow> st \<noteq> 0 \<and> st < 500"
  using own_status_request [of e st] by (auto simp: request_statuses_def)

lemma error_problem_nonzero: "p_status (ew_problem ew e) \<noteq> 0"
  using own_status_nonzero [of e]
  by (auto simp: ew_problem_def error_problem_def matched_problem_def with_status_status status_problem_def
      split: option.split err.split)

lemma error_problem_own: "own_status e = Some st \<Longrightarrow> error_problem ew e = (status_problem st, False)"
  by (simp add: error_problem_def)

lemma error_problem_whole:
  "snd (error_problem ew e) \<longleftrightarrow> (\<exists>p. e = ProblemVal p \<or> e = ProblemPtr (Some p))"
  by (cases e; auto simp: error_problem_def matched_problem_def split: option.split)

lemma error_problem_matchers:
  "own_status e = None \<Longrightarrow> \<not> snd (error_problem ew e) \<Longrightarrow> error_problem ew e = matched_problem ew e"
  by (cases e; auto simp: error_problem_def split: option.splits)

text \<open>
  The order of the mapping: one of the package's own errors anywhere in the
  error's tree decides the status, a request-shaped one, before any matcher; a \<open>Problem\<close> maps to
  itself only when it is the returned error, not inside another; otherwise the first matcher that
  claims the error decides, a wrapped \<open>Problem\<close> included; nothing claimed is a 500, and no problem
  goes out with status 0.
\<close>

theorem error_problem_order:
  "(case own_status e of
      Some st \<Rightarrow> error_problem ew e = (status_problem st, False) \<and> st \<in> request_statuses
    | None \<Rightarrow>
        if \<exists>p. e = ProblemVal p \<or> e = ProblemPtr (Some p) then snd (error_problem ew e)
        else error_problem ew e =
          (case first_match (ew_matchers ew) e of Some p \<Rightarrow> (with_status p, False) | None \<Rightarrow> (status_problem 500, False))) \<and>
   error_problem ew (Wrapped m (ProblemVal p')) =
      (case first_match (ew_matchers ew) (Wrapped m (ProblemVal p')) of
         Some p \<Rightarrow> (with_status p, False) | None \<Rightarrow> (status_problem 500, False)) \<and>
   p_status (ew_problem ew e) \<noteq> 0"
  using own_status_request [of e] error_problem_own [of e] error_problem_whole [of ew e]
    error_problem_matchers [of e ew] error_problem_nonzero [of ew e]
  by (auto simp: matched_problem_def error_problem_def [of ew "Wrapped _ _"] split: option.split)

lemma response_only_write_problem: "response_only (problem_write w p)"
  by (auto simp: problem_write_def send_json_def encode_to_def Let_def
      intro!: response_only_intros split: option.split)

lemma log_free_write_problem: "log_free (problem_write w p)"
  by (auto simp: problem_write_def send_json_def encode_to_def Let_def intro!: log_free_intros split: option.split)

lemma problem_write_for_log:
  "problem_write_for w a p (s\<lparr>w_log := l\<rparr>) = set_log l (problem_write_for w a p s)"
  using log_free_write_problem by (simp add: problem_write_for_def log_free_def req_def)

lemma problem_write_for_same_outside: "problem_write_for w a p s = (r, t) \<Longrightarrow> same_outside s t"
  using response_onlyD [OF response_only_write_problem] by (auto simp: problem_write_for_def)

text \<open>Sending one document over the client's connection, in terms of the connection's own state.\<close>

definition sends :: "writer \<Rightarrow> err option go \<Rightarrow> int \<Rightarrow> string \<Rightarrow> json \<Rightarrow> world \<Rightarrow> bool" where
  "sends w m status media j s \<longleftrightarrow>
     (\<exists>t doc. m s = (Done None, t) \<and> encode_json j = Some doc \<and> map_option fst (w_sent t) = Some status \<and>
        w_body t = w_body s @ doc @ [CHR 0x0A] \<and> conn_header t = header_set ''Content-Type'' media (w_header s) \<and>
        same_outside s t)"

definition untouched :: "writer \<Rightarrow> world \<Rightarrow> bool" where
  "untouched w s \<longleftrightarrow>
     writer_base w s = Conn \<and> w_conn_err s = None \<and> w_sent s = None \<and> declared_length (w_header s) = None"

lemma untouched_views:
  assumes "untouched w s"
  shows "writer_alive w s" "writer_status w s = None" "writer_header_map w s = w_header s"
  using assms by (simp_all add: untouched_def writer_alive_def writer_status_def base_status_def writer_header_map_def)

lemma conn_status:
  "same_outside s t \<Longrightarrow> writer_base w s = Conn \<Longrightarrow> writer_status w t = map_option fst (w_sent t)"
  by (simp add: writer_status_def base_status_def writer_base_same)

lemma problem_sends:
  assumes "untouched w s" "200 \<le> p_status q" "p_status q \<le> 999" "body_allowed (p_status q)"
    "\<forall>kv \<in> set (p_extras p). encodable (snd kv)" "q = apply_defaults (problem_for (req a s) p)"
  shows "sends w (problem_write_for w a p) (p_status q) problem_media_type (marshal_problem q) s"
proof -
  note v = untouched_views [OF assms(1)]
  have len: "declared_length (writer_header_map w s) = None" using assms(1) v(3) by (simp add: untouched_def)
  from problem_write_for_document [OF v(1,2) len assms(2-6)]
  obtain t doc where t: "problem_write_for w a p s = (Done None, t)" "encode_json (marshal_problem q) = Some doc"
    "writer_status w t = Some (p_status q)" "w_body t = w_body s @ doc @ [CHR 0x0A]"
    "conn_header t = header_set ''Content-Type'' problem_media_type (w_header s)"
    using v(3) by auto
  have "same_outside s t" using t(1) by (rule problem_write_for_same_outside)
  then show ?thesis
    using t conn_status [of s t w] assms(1) by (auto simp: sends_def untouched_def)
qed

lemma response_only_write_json: "response_only (write_json w status j)"
  by (auto simp: write_json_def send_json_def encode_to_def intro!: response_only_intros split: option.split)

lemma json_sends:
  assumes "untouched w s" "200 \<le> status" "status \<le> 999" "body_allowed status" "encode_json j = Some doc"
  shows "sends w (write_json w status j) status json_media_type j s"
proof -
  note v = untouched_views [OF assms(1)]
  have len: "declared_length (header_set ''Content-Type'' json_media_type (writer_header_map w s)) = None"
    using assms(1) v(3) by (simp add: untouched_def)
  from writer.send_json_document [OF v(1,2) assms(2-4) len assms(5)]
  obtain t where t: "write_json w status j s = (Done None, t)" "writer_status w t = Some status"
    "w_body t = w_body s @ doc @ [CHR 0x0A]" "conn_header t = header_set ''Content-Type'' json_media_type (w_header s)"
    using v(3) by (auto simp: write_json_def)
  have "same_outside s t" using response_only_write_json t(1) by (rule response_onlyD)
  then show ?thesis
    using t assms(5) conn_status [of s t w] assms(1) by (auto simp: sends_def untouched_def)
qed

text \<open>\<open>ew_write\<close> is one write of a problem, and at most one log record.\<close>

definition cause_records :: "error_writer \<Rightarrow> request \<Rightarrow> err \<Rightarrow> log_record list" where
  "cause_records ew r e =
     (let st = p_status (ew_problem ew e) in
      if 500 \<le> st
      then [\<lparr>lg_level = cause_level r st e, lg_message = ''server error response'', lg_attrs = handle_attrs r st e\<rparr>]
      else [])"

definition reported_problem :: "error_writer \<Rightarrow> err \<Rightarrow> problem" where
  "reported_problem ew e = with_detail ew e (error_problem ew e)"

lemma ew_write_eq:
  "ew_write ew w a e s =
     set_log (w_log s @ cause_records ew (req a s) e) (problem_write_for w a (reported_problem ew e) s)"
proof -
  obtain p whole where p: "error_problem ew e = (p, whole)" by fastforce
  obtain r t where t: "problem_write_for w a (reported_problem ew e) s = (r, t)" by fastforce
  have "w_log t = w_log s" using problem_write_for_same_outside [OF t] by (simp add: same_outside_def)
  then have keep: "set_log (w_log s) (r, t) = (r, t)" by (simp add: set_log_def)
  show ?thesis
  proof (cases "500 \<le> p_status p")
    case True
    have "log_cause a (p_status p) e s = (Done (), s\<lparr>w_log := w_log s @ cause_records ew (req a s) e\<rparr>)"
      using True p by (simp add: log_cause_def log_attrs_def cause_records_def ew_problem_def Let_def)
    then show ?thesis
      using True p by (simp add: ew_write_def go_simps problem_write_for_log reported_problem_def)
  next
    case False
    then show ?thesis
      using p t keep by (simp add: ew_write_def cause_records_def ew_problem_def reported_problem_def)
  qed
qed




end
