(* ===== verification/Handler.thy ===== *)
theory Handler imports Error_Writer begin

text \<open>
  Handlers that return an error (\<open>handler.go\<close>): \<open>Handle\<close> adapts one into an \<open>http.Handler\<close>, writing a
  returned error as a problem, but never as a second response.
\<close>

type_synonym handler_func = "writer \<Rightarrow> nat \<Rightarrow> err option go"

definition log_request :: "string \<Rightarrow> nat \<Rightarrow> nat \<Rightarrow> err \<Rightarrow> unit go" where
  "log_request message i a e s =
     log_attrs Error message (handle_attrs (req a s) (recorder_status i s) e) s"

definition serve_func :: "handler_func \<Rightarrow> error_writer \<Rightarrow> handler" where
  "serve_func fn ew w a =
     go_bind (wrap_writer w) (\<lambda>i.
       go_bind (fn (Rec i) a) (\<lambda>returned.
         case returned of
           None \<Rightarrow> go_return ()
         | Some e \<Rightarrow>
             go_bind (go_read (recorder_committed i)) (\<lambda>committed.
               if committed
               then log_request ''handler returned an error after committing its response'' i a e
               else
                 go_bind (ew_write ew (Rec i) a e) (\<lambda>werr.
                   case werr of
                     None \<Rightarrow> go_return ()
                   | Some we \<Rightarrow> log_request ''failed to write problem response'' i a we))))"

text \<open>A nil \<open>ew\<close> panics when the handler is adapted, before any request.\<close>

definition handle :: "handler_func \<Rightarrow> error_writer option \<Rightarrow> (err, handler) res" where
  "handle fn ew =
     (case ew of
        None \<Rightarrow> Panic ''web: Handle requires an ErrorWriter; wire one with NewErrorWriter''
      | Some ew \<Rightarrow> Ok (serve_func fn ew))"

section \<open>One response\<close>

lemma serve_func_run:
  assumes "wrap_writer w s = (Done i, s1)" "fn (Rec i) a s1 = (Done returned, s2)"
  shows "serve_func fn ew w a s =
    (case returned of
       None \<Rightarrow> (Done (), s2)
     | Some e \<Rightarrow>
         if recorder_committed i s2
         then log_request ''handler returned an error after committing its response'' i a e s2
         else go_bind (ew_write ew (Rec i) a e) (\<lambda>werr.
                case werr of
                  None \<Rightarrow> go_return ()
                | Some we \<Rightarrow> log_request ''failed to write problem response'' i a we) s2)"
  using assms by (simp add: serve_func_def go_simps split: option.split)

lemma wrap_writer_Done: "\<exists>i s1. wrap_writer w s = (Done i, s1)"
  by (cases w) (simp_all add: wrap_writer_def)

text \<open>The response part of the state: everything but the log.\<close>

definition only_logged :: "world \<Rightarrow> world \<Rightarrow> bool" where
  "only_logged s t \<longleftrightarrow> t = s\<lparr>w_log := w_log t\<rparr>"

lemma only_logged_log [simp]: "only_logged s (s\<lparr>w_log := l\<rparr>)"
  by (simp add: only_logged_def)



text \<open>
  A handler that returns an error having written nothing: the client gets the
  problem the error writer maps the error to, with its status and its document, as the whole
  response, through the recorder every layer shares, and nothing is logged but a 5xx's cause.
\<close>

theorem handle_sends_problem:
  assumes "wrap_writer (Base Conn) s = (Done i, s1)" "fn (Rec i) a s1 = (Done (Some e), s2)"
    "rec_reachable i s2" "\<not> recorder_committed i s2" "w_conn_err s2 = None"
    "declared_length (w_header s2) = None"
    and q: "q = apply_defaults (problem_for (req a s2) (reported_problem ew e))"
    and ok: "200 \<le> p_status q" "p_status q \<le> 999" "body_allowed (p_status q)"
      "\<forall>kv \<in> set (p_extras (reported_problem ew e)). encodable (snd kv)"
  shows "\<exists>t doc. serve_func fn ew (Base Conn) a s = (Done (), t) \<and>
    encode_json (marshal_problem q) = Some doc \<and> map_option fst (w_sent t) = Some (p_status q) \<and>
    w_body t = w_body s2 @ doc @ [CHR 0x0A] \<and> w_log t = w_log s2 @ cause_records ew (req a s2) e"
proof -
  have inv: "rec_inv i s2" using assms(3) by (rule rec_reachable_inv)
  have alive: "writer_alive (Rec i) s2" "writer_status (Rec i) s2 = None"
    using inv assms(4,5) by (auto simp: rec_inv_def writer_alive_def writer_status_def writer_base_def base_status_def)
  have "declared_length (writer_header_map (Rec i) s2) = None"
    using alive(1) assms(6) by (simp add: writer_header_map_def writer_alive_def)
  from problem_write_for_document [OF alive this ok q]
  obtain t doc where t: "problem_write_for (Rec i) a (reported_problem ew e) s2 = (Done None, t)"
    "encode_json (marshal_problem q) = Some doc" "writer_status (Rec i) t = Some (p_status q)"
    "w_body t = w_body s2 @ doc @ [CHR 0x0A]" by blast
  have "writer_base (Rec i) t = Conn"
    using writer_base_same [OF problem_write_for_same_outside [OF t(1)]] alive(1) by (simp add: writer_alive_def)
  then have "map_option fst (w_sent t) = Some (p_status q)"
    using t(3) by (simp add: writer_status_def base_status_def)
  then show ?thesis
    using t serve_func_run [of "Base Conn" s i s1 fn a, OF assms(1,2)] assms(4)
    by (auto simp: ew_write_eq set_log_def go_simps)
qed

theorem handle_sends_problem_witness:
  "\<exists>t. serve_func (\<lambda>w a. go_return (Some (Text ''secret''))) \<lparr>ew_matchers = [], ew_detail = []\<rparr>
      (Base Conn) 0 example_world = (Done (), t) \<and> map_option fst (w_sent t) = Some 500"
proof -
  let ?s1 = "snd (wrap_writer (Base Conn) example_world)"
  have w: "wrap_writer (Base Conn) example_world = (Done 0, ?s1)"
    by (simp add: wrap_writer_def example_world_def)
  have r: "rec_reachable 0 ?s1"
    using w by (rule rec_reachable.start [rotated]) (simp add: example_world_def)
  have u: "\<not> recorder_committed 0 ?s1" "w_conn_err ?s1 = None" "declared_length (w_header ?s1) = None"
    by (simp_all add: wrap_writer_def example_world_def recorder_committed_def declared_length_def header_get_def
        parse_int_def)
  have p: "reported_problem \<lparr>ew_matchers = [], ew_detail = []\<rparr> (Text ''secret'') = status_problem 500"
    by (simp add: reported_problem_def with_detail_def error_problem_def matched_problem_def status_problem_def)
  have "\<exists>t doc. serve_func (\<lambda>w a. go_return (Some (Text ''secret''))) \<lparr>ew_matchers = [], ew_detail = []\<rparr>
      (Base Conn) 0 example_world = (Done (), t) \<and>
    encode_json (marshal_problem (apply_defaults (problem_for (req 0 ?s1) (status_problem 500)))) = Some doc \<and>
    map_option fst (w_sent t) = Some (p_status (apply_defaults (problem_for (req 0 ?s1) (status_problem 500)))) \<and>
    w_body t = w_body ?s1 @ doc @ [CHR 0x0A] \<and>
    w_log t = w_log ?s1 @ cause_records \<lparr>ew_matchers = [], ew_detail = []\<rparr> (req 0 ?s1) (Text ''secret'')"
    by (rule handle_sends_problem [OF w _ r u])
      (simp_all only: go_return_simp p, simp_all add: apply_defaults_def Let_def status_problem_def body_allowed_def)
  then show ?thesis by (auto simp: apply_defaults_def Let_def status_problem_def)
qed

end
