(* ===== verification/Mux.thy ===== *)
theory Mux imports Handler begin

text \<open>
  Middleware composition (\<open>middleware.go\<close>) and serving through an \<open>http.ServeMux\<close> with the
  package's own answers to a miss (\<open>miss.go\<close>). The matching of \<open>ServeMux\<close> is a parameter: a function
  from the registered patterns and the request to its answer.
\<close>

section \<open>Chain\<close>

text \<open>A nil entry is \<open>None\<close>. The loop goes over the entries backward.\<close>

definition chain :: "handler \<Rightarrow> middleware option list \<Rightarrow> handler" where
  "chain h mws = fold (\<lambda>m h. case m of None \<Rightarrow> h | Some f \<Rightarrow> f h) (rev mws) h"

lemma chain_nil [simp]: "chain h [] = h"
  by (simp add: chain_def)

lemma chain_cons [simp]: "chain h (m # ms) = (case m of None \<Rightarrow> chain h ms | Some f \<Rightarrow> f (chain h ms))"
  by (cases m) (simp_all add: chain_def)

lemma chain_append: "chain h (as @ bs) = chain (chain h bs) as"
  by (simp add: chain_def)

lemma chain_skips_nil: "chain h ms = chain h (filter (\<lambda>m. m \<noteq> None) ms)"
  by (induction ms) (auto split: option.split)

text \<open>
  \<open>Chain\<close> composes in argument order, the first entry outermost: a chain of two
  lists is the chain of the first around the chain of the second, and nil entries count for
  nothing wherever they stand.
\<close>

theorem chain_composes:
  "chain h (as @ bs) = chain (chain h bs) as \<and>
   chain h (Some f # as) = f (chain h as) \<and>
   chain h as = chain h (filter (\<lambda>m. m \<noteq> None) as)"
  using chain_skips_nil [of h as] by (simp add: chain_append)

section \<open>ServeMux\<close>

text \<open>
  A mux is its registrations. \<open>Handle\<close> panics on a pattern that is malformed or conflicts with one
  registered; which ones do is the parameter \<open>reject\<close>.
\<close>

type_synonym routes = "(string \<times> handler) list"

definition mux_handle :: "(string list \<Rightarrow> string \<Rightarrow> bool) \<Rightarrow> string \<Rightarrow> handler \<Rightarrow> routes \<Rightarrow> (err, routes) res" where
  "mux_handle reject pattern h mux =
     (if reject (map fst mux) pattern then Panic (''http: invalid or conflicting pattern '' @ pattern)
      else Ok (mux @ [(pattern, h)]))"

text \<open>
  What \<open>Handler\<close> answers: the matching registration with the values of the pattern's wildcards, or,
  with an empty pattern, the handler ServeMux itself answers a miss with.
\<close>

datatype mux_answer =
    Matched string handler "(string \<times> string) list"
  | Missed handler

type_synonym lookup = "routes \<Rightarrow> request \<Rightarrow> mux_answer"

definition proto_at_least :: "request \<Rightarrow> nat \<Rightarrow> nat \<Rightarrow> bool" where
  "proto_at_least r major minor \<longleftrightarrow>
     major < fst (r_proto r) \<or> (fst (r_proto r) = major \<and> minor \<le> snd (r_proto r))"

definition new_miss :: "nat go" where
  "new_miss s =
     (Done (w_next_miss s),
      s\<lparr>w_misses := (w_misses s)(w_next_miss s := \<lparr>mr_header = (\<lambda>_. []), mr_status = 0\<rparr>),
        w_next_miss := Suc (w_next_miss s)\<rparr>)"

definition serve_mux :: "lookup \<Rightarrow> writer \<Rightarrow> nat \<Rightarrow> routes \<Rightarrow> handler \<Rightarrow> handler \<Rightarrow> unit go" where
  "serve_mux lookup w a mux not_found method_not_allowed s =
     (if r_uri (req a s) = ''*''
      then
        go_seq (if proto_at_least (req a s) 1 1 then writer_header w (header_set ''Connection'' ''close'') else go_return ())
          (writer_write_header w 400) s
      else
        case lookup mux (req a s) of
          Matched pattern h vals \<Rightarrow>
            go_seq (set_request a (\<lambda>r. r\<lparr>r_pattern := pattern, r_values := vals\<rparr>)) (h w a) s
        | Missed h \<Rightarrow>
            go_bind new_miss (\<lambda>m.
              go_seq (h (Base (Miss m)) a)
                (go_bind (go_read (\<lambda>s. w_misses s m)) (\<lambda>mr.
                  if mr_status mr = 301 \<or> mr_status mr = 307 \<or> mr_status mr = 308 then h w a
                  else if mr_status mr = 405
                  then
                    go_seq
                      (if header_get (mr_header mr) ''Allow'' \<noteq> []
                       then writer_header w (header_set ''Allow'' (header_get (mr_header mr) ''Allow'')) else go_return ())
                      (method_not_allowed w a)
                  else not_found w a))) s)"

section \<open>The default answers\<close>

definition problem_handler :: "int \<Rightarrow> handler" where
  "problem_handler status w a = go_bind (problem_write_for w a (status_problem status)) (\<lambda>_. go_return ())"

definition default_not_found :: handler where
  "default_not_found = problem_handler 404"

definition default_method_not_allowed :: handler where
  "default_method_not_allowed = problem_handler 405"

definition or_default :: "handler option \<Rightarrow> handler \<Rightarrow> handler" where
  "or_default h d = (case h of None \<Rightarrow> d | Some h \<Rightarrow> h)"

section \<open>Misses\<close>

text \<open>
  What is documented of a handler ServeMux answers a miss with: run against a writer it sets that
  writer's header and status and writes a body, and touches nothing else.
\<close>

definition answers_miss :: "handler \<Rightarrow> nat \<Rightarrow> header \<Rightarrow> int \<Rightarrow> bool" where
  "answers_miss h a hdr status \<longleftrightarrow>
     (\<forall>s m. mr_status (w_misses s m) = 0 \<longrightarrow>
        h (Base (Miss m)) a s = (Done (), s\<lparr>w_misses := (w_misses s)(m := \<lparr>mr_header = hdr, mr_status = status\<rparr>)\<rparr>))"

text \<open>The state with the miss recorder of one request in it.\<close>

definition after_miss :: "header \<Rightarrow> int \<Rightarrow> world \<Rightarrow> world" where
  "after_miss hdr status s =
     s\<lparr>w_misses := (w_misses s)(w_next_miss s := \<lparr>mr_header = hdr, mr_status = status\<rparr>),
       w_next_miss := Suc (w_next_miss s)\<rparr>"

lemma serve_mux_miss:
  assumes "r_uri (req a s) \<noteq> ''*''" "lookup mux (req a s) = Missed h" "answers_miss h a hdr status"
  shows "serve_mux lookup w a mux nf mna s =
    (if status = 301 \<or> status = 307 \<or> status = 308 then h w a
     else if status = 405
     then go_seq (if header_get hdr ''Allow'' \<noteq> [] then writer_header w (header_set ''Allow'' (header_get hdr ''Allow''))
                  else go_return ()) (mna w a)
     else nf w a) (after_miss hdr status s)"
proof -
  let ?m = "w_next_miss s"
  let ?s1 = "s\<lparr>w_misses := (w_misses s)(?m := \<lparr>mr_header = (\<lambda>_. []), mr_status = 0\<rparr>), w_next_miss := Suc ?m\<rparr>"
  have "h (Base (Miss ?m)) a ?s1 = (Done (), after_miss hdr status s)"
    using assms(3) by (simp add: answers_miss_def after_miss_def)
  then show ?thesis
    using assms(1,2) by (simp add: serve_mux_def new_miss_def go_bind_def [of new_miss] go_simps after_miss_def)
qed

lemma after_miss_views [simp]:
  "w_header (after_miss hdr st s) = w_header s" "w_sent (after_miss hdr st s) = w_sent s"
  "w_body (after_miss hdr st s) = w_body s" "w_conn_err (after_miss hdr st s) = w_conn_err s"
  "w_recs (after_miss hdr st s) = w_recs s" "w_reqs (after_miss hdr st s) = w_reqs s" "req a (after_miss hdr st s) = req a s"
  by (simp_all add: after_miss_def req_def)

lemma problem_handler_sends:
  assumes "writer_base w s = Conn" "w_conn_err s = None" "w_sent s = None" "declared_length (w_header s) = None"
    "400 \<le> st" "st \<le> 999"
  shows "\<exists>t doc. problem_handler st w a s = (Done (), t) \<and>
    encode_json (marshal_problem (apply_defaults (problem_for (req a s) (status_problem st)))) = Some doc \<and>
    map_option fst (w_sent t) = Some st \<and> w_body t = w_body s @ doc @ [CHR 0x0A] \<and>
    conn_header t = header_set ''Content-Type'' problem_media_type (w_header s)"
proof -
  have "untouched w s" using assms(1-4) by (simp add: untouched_def)
  then have "sends w (problem_write_for w a (status_problem st)) st problem_media_type
      (marshal_problem (apply_defaults (problem_for (req a s) (status_problem st)))) s"
    using problem_sends [of w s "apply_defaults (problem_for (req a s) (status_problem st))" "status_problem st" a] assms(5,6)
    by (simp add: apply_defaults_def Let_def status_problem_def body_allowed_def)
  then show ?thesis by (auto simp: sends_def problem_handler_def go_simps)
qed


lemma miss_recorder_updates [simp]:
  "(x :: miss_recorder)\<lparr>mr_header := h, mr_status := c\<rparr> = \<lparr>mr_header = h, mr_status = c\<rparr>"
  by (cases x) simp


end
