(* ===== verification/Router.thy ===== *)
theory Router imports Mux SortFunc begin

text \<open>
  Modules under a prefix and the router that dispatches to them (\<open>router.go\<close>, and the raw handler
  module of \<open>module.go\<close>). The order \<open>Mount\<close> keeps interprets the locale \<open>sort_cmp\<close>.
\<close>

section \<open>Prefixes\<close>

definition matches :: "string \<Rightarrow> string \<Rightarrow> bool" where
  "matches path pre \<longleftrightarrow>
     (if \<not> has_prefix path pre then False
      else length path = length pre \<or> path ! length pre = CHR ''/'')"

definition validate_prefix :: "string \<Rightarrow> (err, unit) res" where
  "validate_prefix pre =
     (if \<not> has_prefix pre ''/'' \<or> has_suffix pre ''/''
      then Panic (''web: prefix must begin with '' @ [CHR 0x27] @ ''/'' @ [CHR 0x27] @ '' and not end with '' @
             [CHR 0x27] @ ''/'' @ [CHR 0x27] @ '': '' @ pre)
      else Ok ())"

lemma matches_iff: "matches path pre \<longleftrightarrow> path = pre \<or> (\<exists>t. path = pre @ CHR ''/'' # t)"
proof
  assume m: "matches path pre"
  then obtain t where t: "path = pre @ t" by (auto simp: matches_def has_prefix_iff split: if_splits)
  then show "path = pre \<or> (\<exists>t. path = pre @ CHR ''/'' # t)"
    using m by (cases t) (auto simp: matches_def nth_append split: if_splits)
qed (auto simp: matches_def has_prefix_iff)

lemma split_on_cons_sep: "split_on c (x @ c # y) = split_on c x @ split_on c y"
proof (induction x)
  case Nil
  then show ?case by simp
next
  case (Cons a x)
  obtain z zs where "split_on c x = z # zs" using split_on_nonempty by (cases "split_on c x") auto
  then show ?case using Cons by simp
qed

text \<open>
  A path matches a prefix exactly when the prefix's segments are the path's
  first segments: \<open>/api\<close> owns \<open>/api\<close> and \<open>/api/x\<close>, never \<open>/apix\<close>.
\<close>

theorem matches_segments:
  "matches path pre \<longleftrightarrow> prefix (split_on (CHR ''/'') pre) (split_on (CHR ''/'') path)"
proof
  assume "matches path pre"
  then show "prefix (split_on (CHR ''/'') pre) (split_on (CHR ''/'') path)"
    by (auto simp: matches_iff split_on_cons_sep)
next
  assume p: "prefix (split_on (CHR ''/'') pre) (split_on (CHR ''/'') path)"
  then obtain ss where ss: "split_on (CHR ''/'') path = split_on (CHR ''/'') pre @ ss" by (auto simp: prefix_def)
  have path: "path = join (split_on (CHR ''/'') pre @ ss) ''/''" by (simp only: join_split_on flip: ss)
  have "join (xs @ ys) sep = (if ys = [] then join xs sep else join xs sep @ sep @ join ys sep)" if "xs \<noteq> []" for xs ys sep
    using that by (induction xs) (auto simp: join_Cons neq_Nil_conv)
  then have "path = (if ss = [] then pre else pre @ ''/'' @ join ss ''/'')"
    unfolding path using split_on_nonempty by (simp add: join_split_on)
  then show "matches path pre" by (auto simp: matches_iff split: if_splits)
qed

section \<open>Modules\<close>

record module_info =
  md_prefix :: string
  md_handler :: handler

definition module_serve :: "module_info \<Rightarrow> handler" where
  "module_serve m = md_handler m"

text \<open>\<open>http.Error\<close> and \<open>http.StripPrefix\<close>.\<close>

definition http_error :: "string \<Rightarrow> int \<Rightarrow> handler" where
  "http_error message code w a =
     go_seq (writer_header w (\<lambda>h. header_set ''X-Content-Type-Options'' ''nosniff''
         (header_set ''Content-Type'' ''text/plain; charset=utf-8'' (header_del ''Content-Length'' h))))
       (go_seq (writer_write_header w code)
         (go_bind (writer_write w (message @ [CHR 0x0A])) (\<lambda>_. go_return ())))"

definition strip_prefix :: "string \<Rightarrow> handler \<Rightarrow> handler" where
  "strip_prefix pre h w a =
     (if pre = [] then h w a
      else
        go_bind (go_read (req a)) (\<lambda>r.
          let p = trim_prefix (r_path r) pre; rp = trim_prefix (r_raw_path r) pre in
          if length p < length (r_path r) \<and> (r_raw_path r = [] \<or> length rp < length (r_raw_path r))
          then go_bind (new_request (r\<lparr>r_path := p, r_raw_path := rp\<rparr>)) (\<lambda>b. h w b)
          else http_error ''404 page not found'' 404 w a))"

definition new_handler_module :: "string \<Rightarrow> handler \<Rightarrow> middleware option list \<Rightarrow> (err, module_info) res" where
  "new_handler_module pre h mws =
     res_bind (validate_prefix pre) (\<lambda>_.
       Ok \<lparr>md_prefix = pre, md_handler = strip_prefix pre (chain h mws)\<rparr>)"

section \<open>The router\<close>

text \<open>
  The field \<open>rt_handler\<close> is the source's \<open>handler\<close>, the composition \<open>ServeHTTP\<close> calls: \<open>NewRouter\<close> and every
  \<open>Use\<close> make it around the method value \<open>r.dispatch\<close>, which reads the router when a request arrives.
\<close>

record router =
  rt_mux :: routes
  rt_modules :: "module_info list"
  rt_middleware :: "middleware option list"
  rt_handler :: "handler \<Rightarrow> handler"
  rt_not_found :: handler
  rt_method_not_allowed :: handler

definition new_router :: router where
  "new_router =
     \<lparr>rt_mux = [], rt_modules = [], rt_middleware = [], rt_handler = (\<lambda>dispatch. dispatch), rt_not_found = default_not_found,
      rt_method_not_allowed = default_method_not_allowed\<rparr>"

definition router_set_not_found :: "handler option \<Rightarrow> router \<Rightarrow> router" where
  "router_set_not_found h r = r\<lparr>rt_not_found := or_default h default_not_found\<rparr>"

definition router_set_method_not_allowed :: "handler option \<Rightarrow> router \<Rightarrow> router" where
  "router_set_method_not_allowed h r = r\<lparr>rt_method_not_allowed := or_default h default_method_not_allowed\<rparr>"

definition router_handle :: "(string list \<Rightarrow> string \<Rightarrow> bool) \<Rightarrow> string \<Rightarrow> handler \<Rightarrow> router \<Rightarrow> (err, router) res" where
  "router_handle reject pattern h r =
     res_bind (mux_handle reject pattern h (rt_mux r)) (\<lambda>mux. Ok (r\<lparr>rt_mux := mux\<rparr>))"

definition router_use :: "middleware option list \<Rightarrow> router \<Rightarrow> router" where
  "router_use mws r =
     (let all = rt_middleware r @ mws
      in r\<lparr>rt_middleware := all, rt_handler := (\<lambda>dispatch. chain dispatch all)\<rparr>)"

definition prefix_cmp :: "module_info \<Rightarrow> module_info \<Rightarrow> int" where
  "prefix_cmp a b = int (length (md_prefix b)) - int (length (md_prefix a))"

definition router_mount :: "module_info \<Rightarrow> router \<Rightarrow> (err, router) res" where
  "router_mount m r =
     (if list_ex (\<lambda>mounted. md_prefix mounted = md_prefix m) (rt_modules r)
      then Panic (''web: module already mounted at '' @ md_prefix m)
      else Ok (r\<lparr>rt_modules := sort_func prefix_cmp (rt_modules r @ [m])\<rparr>))"

fun find_module :: "string \<Rightarrow> module_info list \<Rightarrow> module_info option" where
  "find_module path [] = None"
| "find_module path (m # ms) = (if matches path (md_prefix m) then Some m else find_module path ms)"

definition dispatch :: "lookup \<Rightarrow> router \<Rightarrow> handler" where
  "dispatch lookup r w a s =
     (case find_module (r_path (req a s)) (rt_modules r) of
        Some m \<Rightarrow> module_serve m w a s
      | None \<Rightarrow> serve_mux lookup w a (rt_mux r) (rt_not_found r) (rt_method_not_allowed r) s)"

text \<open>\<open>ServeHTTP\<close>\<close>

definition router_serve :: "lookup \<Rightarrow> router \<Rightarrow> handler" where
  "router_serve lookup r = rt_handler r (dispatch lookup r)"

section \<open>Building a router\<close>

interpretation prefix_order: sort_cmp prefix_cmp
  by unfold_locales (auto simp: prefix_cmp_def)

inductive router_built :: "(string list \<Rightarrow> string \<Rightarrow> bool) \<Rightarrow> router \<Rightarrow> bool" for reject where
  new: "router_built reject new_router"
| set_not_found: "router_built reject r \<Longrightarrow> router_built reject (router_set_not_found h r)"
| set_method_not_allowed: "router_built reject r \<Longrightarrow> router_built reject (router_set_method_not_allowed h r)"
| register: "router_built reject r \<Longrightarrow> router_handle reject pattern h r = Ok r' \<Longrightarrow> router_built reject r'"
| use: "router_built reject r \<Longrightarrow> router_built reject (router_use mws r)"
| mount: "router_built reject r \<Longrightarrow> router_mount m r = Ok r' \<Longrightarrow> router_built reject r'"

definition router_inv :: "router \<Rightarrow> bool" where
  "router_inv r \<longleftrightarrow> distinct (map md_prefix (rt_modules r)) \<and> sorted_by prefix_cmp (rt_modules r) \<and>
     rt_handler r = (\<lambda>dispatch. chain dispatch (rt_middleware r))"

lemma router_built_inv: "router_built reject r \<Longrightarrow> router_inv r"
proof (induction rule: router_built.induct)
  case (mount r m r')
  then show ?case
    by (auto simp: router_inv_def router_mount_def prefix_order.sorted_sort distinct_sort_func list_ex_iff
        split: if_splits) (metis)
qed (auto simp: router_inv_def new_router_def sorted_by_def router_set_not_found_def
    router_set_method_not_allowed_def router_handle_def mux_handle_def router_use_def Let_def res_simps split: if_splits)

lemma find_module_Some: "find_module path ms = Some m \<Longrightarrow> m \<in> set ms \<and> matches path (md_prefix m)"
  by (induction ms) (auto split: if_splits)

lemma find_module_None: "find_module path ms = None \<longleftrightarrow> (\<forall>m \<in> set ms. \<not> matches path (md_prefix m))"
  by (induction ms) auto

lemma matches_length: "matches path p \<Longrightarrow> matches path q \<Longrightarrow> length p = length q \<Longrightarrow> p = q"
  by (auto simp: matches_iff)

lemma find_module_longest:
  assumes "sorted_by prefix_cmp ms" "distinct (map md_prefix ms)"
  shows "find_module path ms = Some m \<longleftrightarrow>
    m \<in> set ms \<and> matches path (md_prefix m) \<and>
    (\<forall>m' \<in> set ms. matches path (md_prefix m') \<longrightarrow> length (md_prefix m') \<le> length (md_prefix m))"
  using assms
proof (induction ms)
  case (Cons x ms)
  then have IH: "find_module path ms = Some m \<longleftrightarrow> m \<in> set ms \<and> matches path (md_prefix m) \<and>
      (\<forall>m' \<in> set ms. matches path (md_prefix m') \<longrightarrow> length (md_prefix m') \<le> length (md_prefix m))"
    by (simp add: sorted_by_def)
  have le: "\<forall>m' \<in> set ms. length (md_prefix m') \<le> length (md_prefix x)"
    using Cons.prems(1) by (auto simp: sorted_by_def prefix_cmp_def)
  have uniq: "m = x" if "matches path (md_prefix x)" "matches path (md_prefix m)" "m \<in> set (x # ms)"
    "length (md_prefix x) \<le> length (md_prefix m)"
  proof -
    have "md_prefix m = md_prefix x"
      using that le by (intro matches_length [of path]) (auto simp: le_antisym)
    then show ?thesis using that(3) Cons.prems(2) by (auto simp: rev_image_eqI)
  qed
  show ?case
  proof (cases "matches path (md_prefix x)")
    case True
    then show ?thesis using le uniq by auto
  next
    case False
    then show ?thesis using IH by auto
  qed
qed simp

text \<open>
  Claim C10 (functional). However a router was put together, it hands a request to the mounted module
  whose prefix is the longest that matches the path on segment boundaries, and to the native mux
  only when no module's prefix matches; no two modules share a prefix. All of it runs under every
  middleware given to \<open>Use\<close>, the first outermost, whatever was mounted or registered since.
\<close>

theorem dispatch_longest_prefix:
  assumes "router_built reject r"
  shows "distinct (map md_prefix (rt_modules r)) \<and>
    (\<forall>m. m \<in> set (rt_modules r) \<and> matches (r_path (req a s)) (md_prefix m) \<and>
      (\<forall>m' \<in> set (rt_modules r). matches (r_path (req a s)) (md_prefix m') \<longrightarrow> length (md_prefix m') \<le> length (md_prefix m)) \<longrightarrow>
      dispatch lookup r w a s = md_handler m w a s) \<and>
    ((\<forall>m \<in> set (rt_modules r). \<not> matches (r_path (req a s)) (md_prefix m)) \<longrightarrow>
      dispatch lookup r w a s = serve_mux lookup w a (rt_mux r) (rt_not_found r) (rt_method_not_allowed r) s) \<and>
    router_serve lookup r = chain (dispatch lookup r) (rt_middleware r)"
proof -
  have inv: "sorted_by prefix_cmp (rt_modules r)" "distinct (map md_prefix (rt_modules r))"
    "router_serve lookup r = chain (dispatch lookup r) (rt_middleware r)"
    using router_built_inv [OF assms] by (simp_all add: router_inv_def router_serve_def)
  show ?thesis
  proof (intro conjI allI impI)
    fix m
    assume "m \<in> set (rt_modules r) \<and> matches (r_path (req a s)) (md_prefix m) \<and>
      (\<forall>m' \<in> set (rt_modules r). matches (r_path (req a s)) (md_prefix m') \<longrightarrow> length (md_prefix m') \<le> length (md_prefix m))"
    then have "find_module (r_path (req a s)) (rt_modules r) = Some m"
      by (intro find_module_longest [OF inv(1,2), THEN iffD2])
    then show "dispatch lookup r w a s = md_handler m w a s" by (simp add: dispatch_def module_serve_def)
  next
    assume "\<forall>m \<in> set (rt_modules r). \<not> matches (r_path (req a s)) (md_prefix m)"
    then have "find_module (r_path (req a s)) (rt_modules r) = None" by (simp only: find_module_None)
    then show "dispatch lookup r w a s = serve_mux lookup w a (rt_mux r) (rt_not_found r) (rt_method_not_allowed r) s"
      by (simp add: dispatch_def)
  qed (rule inv(2,3))+
qed

text \<open>
  Claim C11 (equivalence). Mounting order does not matter: two routers holding the same modules pick
  the same one for every path, although \<open>slices.SortFunc\<close> may leave prefixes of equal length in
  either order.
\<close>

theorem mount_order_irrelevant:
  assumes "router_built reject r" "router_built reject r'" "set (rt_modules r) = set (rt_modules r')"
  shows "find_module path (rt_modules r) = find_module path (rt_modules r')"
proof (cases "find_module path (rt_modules r)")
  case None
  then have "find_module path (rt_modules r') = None"
    using assms(3) by (simp add: find_module_None)
  with None show ?thesis by simp
next
  case (Some m)
  then have "find_module path (rt_modules r') = Some m"
    using router_built_inv [OF assms(1)] router_built_inv [OF assms(2)] assms(3)
    by (simp add: router_inv_def find_module_longest)
  with Some show ?thesis by simp
qed

text \<open>Witnesses: a router with modules at \<open>/api\<close> and \<open>/api/v1\<close>, mounted in either order.\<close>

definition example_module :: "string \<Rightarrow> module_info" where
  "example_module pre = \<lparr>md_prefix = pre, md_handler = (\<lambda>w a. writer_write_header w (200 + int (length pre)))\<rparr>"

lemma example_mounts:
  "router_mount (example_module ''/api'') new_router = Ok (new_router\<lparr>rt_modules := [example_module ''/api'']\<rparr>)"
  "router_mount (example_module ''/api/v1'') new_router = Ok (new_router\<lparr>rt_modules := [example_module ''/api/v1'']\<rparr>)"
  "router_mount (example_module ''/api/v1'') (new_router\<lparr>rt_modules := [example_module ''/api'']\<rparr>) =
     Ok (new_router\<lparr>rt_modules := [example_module ''/api/v1'', example_module ''/api'']\<rparr>)"
  "router_mount (example_module ''/api'') (new_router\<lparr>rt_modules := [example_module ''/api/v1'']\<rparr>) =
     Ok (new_router\<lparr>rt_modules := [example_module ''/api/v1'', example_module ''/api'']\<rparr>)"
  by (simp_all add: router_mount_def new_router_def example_module_def sort_func_def prefix_cmp_def)

lemma example_built:
  "router_built reject (new_router\<lparr>rt_modules := [example_module ''/api/v1'', example_module ''/api'']\<rparr>)"
  by (rule router_built.mount [OF router_built.mount [OF router_built.new example_mounts(1)] example_mounts(3)])

theorem dispatch_longest_prefix_witness:
  "dispatch (\<lambda>_ _. Missed (\<lambda>_ _. go_return ())) (new_router\<lparr>rt_modules := [example_module ''/api/v1'', example_module ''/api'']\<rparr>) (Base Conn) 0
     (example_world\<lparr>w_reqs := (\<lambda>_. example_request\<lparr>r_path := ''/api/v1/x''\<rparr>)\<rparr>) =
   md_handler (example_module ''/api/v1'') (Base Conn) 0 (example_world\<lparr>w_reqs := (\<lambda>_. example_request\<lparr>r_path := ''/api/v1/x''\<rparr>)\<rparr>)"
  by (rule dispatch_longest_prefix [OF example_built, THEN conjunct2, THEN conjunct1, rule_format])
    (simp add: req_def example_module_def matches_iff)

lemma example_ties:
  assumes "p \<noteq> q" "length p = length q"
  shows "router_built reject (new_router\<lparr>rt_modules := [example_module p, example_module q]\<rparr>)"
proof -
  have "router_mount (example_module p) new_router = Ok (new_router\<lparr>rt_modules := [example_module p]\<rparr>)"
    by (simp add: router_mount_def new_router_def sort_func_def)
  moreover have "router_mount (example_module q) (new_router\<lparr>rt_modules := [example_module p]\<rparr>) =
      Ok (new_router\<lparr>rt_modules := [example_module p, example_module q]\<rparr>)"
    using assms by (simp add: router_mount_def new_router_def example_module_def sort_func_def prefix_cmp_def)
  ultimately show ?thesis by (blast intro: router_built.intros)
qed

theorem mount_order_irrelevant_witness:
  "find_module ''/b/x'' (rt_modules (new_router\<lparr>rt_modules := [example_module ''/a'', example_module ''/b'']\<rparr>)) =
   find_module ''/b/x'' (rt_modules (new_router\<lparr>rt_modules := [example_module ''/b'', example_module ''/a'']\<rparr>))"
  by (rule mount_order_irrelevant [OF example_ties example_ties]) (auto simp: new_router_def)

text \<open>
  A raw handler module sees the path with the prefix removed, which is empty
  or starts with a slash, on a copy of the request: the router's own request keeps its path, and
  nothing else of either differs.
\<close>

theorem handler_module_strips:
  assumes "new_handler_module pre h mws = Ok m" "matches (r_path (req a s)) pre" "r_raw_path (req a s) = []"
    "a < w_next_req s"
  shows "md_prefix m = pre \<and>
    (\<exists>b t rest. module_serve m w a s = chain h mws w b t \<and> r_path (req a s) = pre @ rest \<and>
      (rest = [] \<or> hd rest = CHR ''/'') \<and> req b t = (req a s)\<lparr>r_path := rest\<rparr> \<and> req a t = req a s \<and>
      t = s\<lparr>w_reqs := w_reqs t, w_next_req := w_next_req t\<rparr>)"
proof -
  have pre: "pre \<noteq> []" and m: "m = \<lparr>md_prefix = pre, md_handler = strip_prefix pre (chain h mws)\<rparr>"
    using assms(1) by (auto simp: new_handler_module_def validate_prefix_def res_simps split: if_splits)
  obtain rest where rest: "r_path (req a s) = pre @ rest" "rest = [] \<or> hd rest = CHR ''/''"
    using assms(2) by (auto simp: matches_iff)
  let ?b = "w_next_req s"
  let ?r = "(req a s)\<lparr>r_path := rest, r_raw_path := []\<rparr>"
  let ?t = "s\<lparr>w_reqs := (w_reqs s)(?b := ?r), w_next_req := Suc ?b\<rparr>"
  have same: "?r = (req a s)\<lparr>r_path := rest\<rparr>" using assms(3) by (cases "req a s") simp
  have "module_serve m w a s = chain h mws w ?b ?t"
    using pre rest(1) assms(3)
    by (simp add: m module_serve_def strip_prefix_def Let_def trim_prefix_def new_request_def go_simps)
  moreover have "req ?b ?t = (req a s)\<lparr>r_path := rest\<rparr>" 
    by (rule trans [OF _ same]) (simp add: req_def)
  moreover have "req a ?t = req a s" using assms(4) by (simp add: req_def)
  moreover have "?t = s\<lparr>w_reqs := w_reqs ?t, w_next_req := w_next_req ?t\<rparr>" by simp
  ultimately have "\<exists>b t rest. module_serve m w a s = chain h mws w b t \<and> r_path (req a s) = pre @ rest \<and>
      (rest = [] \<or> hd rest = CHR ''/'') \<and> req b t = (req a s)\<lparr>r_path := rest\<rparr> \<and> req a t = req a s \<and>
      t = s\<lparr>w_reqs := w_reqs t, w_next_req := w_next_req t\<rparr>"
    using rest by blast
  then show ?thesis by (simp add: m)
qed

theorem handler_module_strips_witness:
  "\<exists>m b t. new_handler_module ''/app'' h [] = Ok m \<and>
     module_serve m w 0 (example_world\<lparr>w_reqs := (\<lambda>_. example_request\<lparr>r_path := ''/app/x''\<rparr>)\<rparr>) = h w b t \<and>
     r_path (req b t) = ''/x''"
proof -
  let ?s = "example_world\<lparr>w_reqs := (\<lambda>_. example_request\<lparr>r_path := ''/app/x''\<rparr>)\<rparr>"
  obtain m where m: "new_handler_module ''/app'' h [] = Ok m"
    by (simp add: new_handler_module_def validate_prefix_def has_suffix_single)
  from handler_module_strips [OF m, of 0 ?s w]
  obtain b t rest where t: "module_serve m w 0 ?s = h w b t" "r_path (req 0 ?s) = ''/app'' @ rest"
    "req b t = (req 0 ?s)\<lparr>r_path := rest\<rparr>"
    by (auto simp: req_def matches_iff example_world_def example_request_def)
  have "r_path (req b t) = ''/x''" using t(2,3) by (auto simp: req_def)
  with m t(1) show ?thesis by blast
qed

end
