(* ===== verification/Group.thy ===== *)
theory Group imports Router begin

text \<open>
  Groups of routes and their compilation into a module (\<open>group.go\<close>, \<open>module.go\<close>). Groups are shared
  by pointer (a child may be mounted under several parents, and is sealed wherever it was), so
  they live in a heap. Compilation recurses over the mount graph, which the code does not keep
  acyclic, so it takes fuel; more fuel than the depth of the graph is enough.
\<close>

section \<open>The heap of groups\<close>

record route =
  ro_method :: string
  ro_pattern :: string
  ro_handler :: handler
  ro_middleware :: "middleware option list"

record group =
  gr_prefix :: string
  gr_middleware :: "middleware option list"
  gr_routes :: "route list"
  gr_groups :: "nat list"
  gr_errors :: "error_writer option"
  gr_not_found :: "handler option"
  gr_method_not_allowed :: "handler option"
  gr_sealed :: bool

record wiring =
  wi_groups :: "nat \<Rightarrow> group"
  wi_next :: nat

definition set_group :: "nat \<Rightarrow> group \<Rightarrow> wiring \<Rightarrow> wiring" where
  "set_group g gr ws = ws\<lparr>wi_groups := (wi_groups ws)(g := gr)\<rparr>"

definition new_group :: "string \<Rightarrow> wiring \<Rightarrow> (err, nat \<times> wiring) res" where
  "new_group pre ws =
     res_bind (validate_prefix pre) (\<lambda>_.
       let gr = \<lparr>gr_prefix = pre, gr_middleware = [], gr_routes = [], gr_groups = [], gr_errors = None,
                 gr_not_found = None, gr_method_not_allowed = None, gr_sealed = False\<rparr>
       in Ok (wi_next ws, (set_group (wi_next ws) gr ws)\<lparr>wi_next := Suc (wi_next ws)\<rparr>))"

section \<open>Operations\<close>

definition check_seal :: "group \<Rightarrow> (err, unit) res" where
  "check_seal gr = (if gr_sealed gr then Panic ''web: group modified after NewModule'' else Ok ())"

text \<open>Every setter checks the seal first and then changes its own group.\<close>

definition change_group :: "nat \<Rightarrow> (group \<Rightarrow> group) \<Rightarrow> wiring \<Rightarrow> (err, wiring) res" where
  "change_group g f ws = res_bind (check_seal (wi_groups ws g)) (\<lambda>_. Ok (set_group g (f (wi_groups ws g)) ws))"

definition group_use :: "nat \<Rightarrow> middleware option list \<Rightarrow> wiring \<Rightarrow> (err, wiring) res" where
  "group_use g mws = change_group g (\<lambda>gr. gr\<lparr>gr_middleware := gr_middleware gr @ mws\<rparr>)"

definition group_handle ::
  "nat \<Rightarrow> string \<Rightarrow> string \<Rightarrow> handler \<Rightarrow> middleware option list \<Rightarrow> wiring \<Rightarrow> (err, wiring) res" where
  "group_handle g method pattern h mws =
     change_group g (\<lambda>gr. gr\<lparr>gr_routes := gr_routes gr @
       [\<lparr>ro_method = method, ro_pattern = pattern, ro_handler = h, ro_middleware = mws\<rparr>]\<rparr>)"

definition group_set_error_writer :: "nat \<Rightarrow> error_writer option \<Rightarrow> wiring \<Rightarrow> (err, wiring) res" where
  "group_set_error_writer g ew = change_group g (\<lambda>gr. gr\<lparr>gr_errors := ew\<rparr>)"

definition group_set_not_found :: "nat \<Rightarrow> handler option \<Rightarrow> wiring \<Rightarrow> (err, wiring) res" where
  "group_set_not_found g h = change_group g (\<lambda>gr. gr\<lparr>gr_not_found := h\<rparr>)"

definition group_set_method_not_allowed :: "nat \<Rightarrow> handler option \<Rightarrow> wiring \<Rightarrow> (err, wiring) res" where
  "group_set_method_not_allowed g h = change_group g (\<lambda>gr. gr\<lparr>gr_method_not_allowed := h\<rparr>)"

text \<open>\<open>HandleErr\<close> adapts the handler with the writer the group has at that moment.\<close>

definition group_handle_err ::
  "nat \<Rightarrow> string \<Rightarrow> string \<Rightarrow> handler_func \<Rightarrow> middleware option list \<Rightarrow> wiring \<Rightarrow> (err, wiring) res" where
  "group_handle_err g method pattern fn mws ws =
     (case gr_errors (wi_groups ws g) of
        None \<Rightarrow> Panic (''web: HandleErr on a group with no error writer; call SetErrorWriter first: '' @
                  gr_prefix (wi_groups ws g) @ pattern)
      | Some ew \<Rightarrow> res_bind (handle fn (Some ew)) (\<lambda>h. group_handle g method pattern h mws ws))"

definition group_mount :: "nat \<Rightarrow> nat \<Rightarrow> wiring \<Rightarrow> (err, wiring) res" where
  "group_mount g child = change_group g (\<lambda>gr. gr\<lparr>gr_groups := gr_groups gr @ [child]\<rparr>)"

section \<open>Compilation\<close>

definition route_pattern :: "string \<Rightarrow> route \<Rightarrow> string" where
  "route_pattern pre rt =
     (let pattern = pre @ ro_pattern rt
      in if ro_method rt \<noteq> [] then ro_method rt @ '' '' @ pattern else pattern)"

fun register_routes ::
  "(string list \<Rightarrow> string \<Rightarrow> bool) \<Rightarrow> string \<Rightarrow> middleware option list \<Rightarrow> route list \<Rightarrow> routes \<Rightarrow> (err, routes) res" where
  "register_routes reject pre ch [] mux = Ok mux"
| "register_routes reject pre ch (rt # rts) mux =
     res_bind (mux_handle reject (route_pattern pre rt) (chain (ro_handler rt) (ch @ ro_middleware rt)) mux)
       (register_routes reject pre ch rts)"

text \<open>
  The heap, which keeps its seals even when compilation panics, and the mux or the panic. \<open>None\<close> is
  running out of fuel, that is of stack.
\<close>

type_synonym compiled = "((err, routes) res \<times> wiring) option"

fun each_child ::
  "(nat \<Rightarrow> routes \<Rightarrow> wiring \<Rightarrow> compiled) \<Rightarrow> nat list \<Rightarrow> routes \<Rightarrow> wiring \<Rightarrow> compiled" where
  "each_child f [] mux ws = Some (Ok mux, ws)"
| "each_child f (c # cs) mux ws =
     (case f c mux ws of
        Some (Ok mux', ws') \<Rightarrow> each_child f cs mux' ws'
      | stop \<Rightarrow> stop)"

primrec compile_group ::
  "nat \<Rightarrow> (string list \<Rightarrow> string \<Rightarrow> bool) \<Rightarrow> string \<Rightarrow> middleware option list \<Rightarrow> nat \<Rightarrow> routes \<Rightarrow> wiring \<Rightarrow> compiled" where
  "compile_group 0 reject parent outer g mux ws = None"
| "compile_group (Suc n) reject parent outer g mux ws =
     (let gr = wi_groups ws g;
          ws = set_group g (gr\<lparr>gr_sealed := True\<rparr>) ws;
          pre = parent @ gr_prefix gr
      in if parent \<noteq> [] \<and> (gr_not_found gr \<noteq> None \<or> gr_method_not_allowed gr \<noteq> None)
         then Some (Panic (''web: SetNotFound/SetMethodNotAllowed on a nested group; set them on the group passed to NewModule: '' @ pre), ws)
         else
           let ch = outer @ gr_middleware gr
           in case register_routes reject pre ch (gr_routes gr) mux of
                Ok mux' \<Rightarrow> each_child (compile_group n reject pre ch) (gr_groups gr) mux' ws
              | r \<Rightarrow> Some (r, ws))"

definition new_module ::
  "nat \<Rightarrow> (string list \<Rightarrow> string \<Rightarrow> bool) \<Rightarrow> lookup \<Rightarrow> nat \<Rightarrow> wiring \<Rightarrow> ((err, module_info) res \<times> wiring) option" where
  "new_module fuel reject lookup g ws =
     (case compile_group fuel reject [] [] g [] ws of
        None \<Rightarrow> None
      | Some (r, ws') \<Rightarrow>
          let gr = wi_groups ws' g
          in Some (res_bind r (\<lambda>mux.
               Ok \<lparr>md_prefix = gr_prefix gr,
                   md_handler = (\<lambda>w a. serve_mux lookup w a mux (or_default (gr_not_found gr) default_not_found)
                     (or_default (gr_method_not_allowed gr) default_method_not_allowed))\<rparr>), ws'))"

section \<open>The mount graph\<close>

text \<open>
  Group \<open>g\<close> is in the tree rooted at \<open>rg\<close>, under the full prefix \<open>pre\<close> and with the middleware
  \<open>ch\<close> of every group on the way, outermost first.
\<close>

inductive in_tree ::
  "(nat \<Rightarrow> group) \<Rightarrow> string \<Rightarrow> middleware option list \<Rightarrow> nat \<Rightarrow> nat \<Rightarrow> string \<Rightarrow> middleware option list \<Rightarrow> bool"
  for G parent outer rg where
  root: "in_tree G parent outer rg rg (parent @ gr_prefix (G rg)) (outer @ gr_middleware (G rg))"
| child: "in_tree G parent outer rg g pre ch \<Longrightarrow> c \<in> set (gr_groups (G g)) \<Longrightarrow>
    in_tree G parent outer rg c (pre @ gr_prefix (G c)) (ch @ gr_middleware (G c))"

lemma in_tree_step:
  "in_tree G parent outer rg g pre ch \<longleftrightarrow>
     (g = rg \<and> pre = parent @ gr_prefix (G rg) \<and> ch = outer @ gr_middleware (G rg)) \<or>
     (\<exists>c \<in> set (gr_groups (G rg)).
        in_tree G (parent @ gr_prefix (G rg)) (outer @ gr_middleware (G rg)) c g pre ch)"
  (is "?in \<longleftrightarrow> ?here \<or> ?below")
proof
  assume ?in
  then show "?here \<or> ?below"
  proof (induction rule: in_tree.induct)
    case (child g pre ch c)
    then show ?case
      using in_tree.root [of G "parent @ gr_prefix (G rg)" "outer @ gr_middleware (G rg)" c]
      by (auto intro: in_tree.child)
  qed simp
next
  have below: "in_tree G parent outer rg g pre ch"
    if "in_tree G (parent @ gr_prefix (G rg)) (outer @ gr_middleware (G rg)) c g pre ch"
      "c \<in> set (gr_groups (G rg))" for c
    using that
  proof (induction rule: in_tree.induct)
    case root
    then show ?case using in_tree.child [OF in_tree.root, of c G rg parent outer] by simp
  next
    case (child g pre ch c')
    then show ?case by (blast intro: in_tree.child)
  qed
  assume "?here \<or> ?below"
  then show ?in using in_tree.root [of G parent outer rg] below by blast
qed

text \<open>Compilation changes nothing of a group but its seal, and never breaks one.\<close>

definition shape :: "wiring \<Rightarrow> nat \<Rightarrow> group" where
  "shape ws g = (wi_groups ws g)\<lparr>gr_sealed := False\<rparr>"

definition sealing :: "wiring \<Rightarrow> wiring \<Rightarrow> bool" where
  "sealing ws ws' \<longleftrightarrow> shape ws' = shape ws \<and> wi_next ws' = wi_next ws \<and>
     (\<forall>g. gr_sealed (wi_groups ws g) \<longrightarrow> gr_sealed (wi_groups ws' g))"

lemma sealing_refl [simp]: "sealing ws ws"
  by (simp add: sealing_def)

lemma sealing_trans: "sealing ws ws' \<Longrightarrow> sealing ws' ws'' \<Longrightarrow> sealing ws ws''"
  by (simp add: sealing_def)

lemma shape_fields [simp]:
  "gr_prefix (shape ws g) = gr_prefix (wi_groups ws g)" "gr_middleware (shape ws g) = gr_middleware (wi_groups ws g)"
  "gr_routes (shape ws g) = gr_routes (wi_groups ws g)" "gr_groups (shape ws g) = gr_groups (wi_groups ws g)"
  "gr_not_found (shape ws g) = gr_not_found (wi_groups ws g)"
  "gr_method_not_allowed (shape ws g) = gr_method_not_allowed (wi_groups ws g)"
  by (simp_all add: shape_def)

lemma sealing_seal: "sealing ws (set_group g ((wi_groups ws g)\<lparr>gr_sealed := True\<rparr>) ws)"
  by (auto simp: sealing_def shape_def set_group_def fun_eq_iff)

lemma in_tree_shape_imp:
  "in_tree G parent outer rg g pre ch \<Longrightarrow> (\<And>x. gr_prefix (H x) = gr_prefix (G x)) \<Longrightarrow>
     (\<And>x. gr_middleware (H x) = gr_middleware (G x)) \<Longrightarrow> (\<And>x. gr_groups (H x) = gr_groups (G x)) \<Longrightarrow>
     in_tree H parent outer rg g pre ch"
proof (induction rule: in_tree.induct)
  case root
  then show ?case using in_tree.root [of H parent outer rg] by simp
next
  case (child g pre ch c)
  then show ?case using in_tree.child [of H parent outer rg g pre ch c] by simp
qed

lemma in_tree_shape [simp]: "in_tree (shape ws) parent outer rg g pre ch = in_tree (wi_groups ws) parent outer rg g pre ch"
  by (auto elim: in_tree_shape_imp)

lemma each_child_Cons:
  "each_child f (c # cs) mux ws = Some (r, ws') \<longleftrightarrow>
     (\<exists>mux1 ws1. f c mux ws = Some (Ok mux1, ws1) \<and> each_child f cs mux1 ws1 = Some (r, ws')) \<or>
     (f c mux ws = Some (r, ws') \<and> \<not> is_ok r)"
  by (auto split: option.splits prod.splits res.splits)

lemma each_child_sealing:
  assumes "\<And>c mux ws r ws'. f c mux ws = Some (r, ws') \<Longrightarrow> sealing ws ws'"
  shows "each_child f cs mux ws = Some (r, ws') \<Longrightarrow> sealing ws ws'"
proof (induction cs arbitrary: mux ws)
  case (Cons c cs)
  then show ?case
    unfolding each_child_Cons using assms by (blast intro: sealing_trans)
qed simp

lemma compile_group_sealing: "compile_group n reject parent outer g mux ws = Some (r, ws') \<Longrightarrow> sealing ws ws'"
proof (induction n arbitrary: parent outer g mux ws r ws')
  case (Suc n)
  let ?ws = "set_group g ((wi_groups ws g)\<lparr>gr_sealed := True\<rparr>) ws"
  have "ws' = ?ws \<or> (\<exists>pre ch mux'. each_child (compile_group n reject pre ch) (gr_groups (wi_groups ws g)) mux' ?ws = Some (r, ws'))"
    using Suc.prems by (auto simp: Let_def split: if_splits res.splits)
  then have "sealing ?ws ws'"
    using each_child_sealing [OF Suc.IH] by auto
  then show ?case using sealing_seal sealing_trans by blast
qed simp

section \<open>What a compiled module serves\<close>

definition tree_routes :: "wiring \<Rightarrow> string \<Rightarrow> middleware option list \<Rightarrow> nat \<Rightarrow> (string \<times> handler) set" where
  "tree_routes ws parent outer g =
     {(route_pattern pre rt, chain (ro_handler rt) (ch @ ro_middleware rt)) | g' pre ch rt.
        in_tree (wi_groups ws) parent outer g g' pre ch \<and> rt \<in> set (gr_routes (wi_groups ws g'))}"

lemma sealing_in_tree:
  assumes "sealing ws ws'"
  shows "in_tree (wi_groups ws') parent outer g g' pre ch = in_tree (wi_groups ws) parent outer g g' pre ch"
proof -
  have "shape ws' = shape ws" using assms by (simp add: sealing_def)
  then show ?thesis using in_tree_shape [of ws'] in_tree_shape [of ws] by simp
qed

lemma sealing_fields:
  assumes "sealing ws ws'"
  shows "gr_routes (wi_groups ws' g) = gr_routes (wi_groups ws g)"
    "gr_groups (wi_groups ws' g) = gr_groups (wi_groups ws g)"
proof -
  have "shape ws' = shape ws" using assms by (simp add: sealing_def)
  then show "gr_routes (wi_groups ws' g) = gr_routes (wi_groups ws g)"
    "gr_groups (wi_groups ws' g) = gr_groups (wi_groups ws g)"
    using shape_fields(3,4) [of ws' g] shape_fields(3,4) [of ws g] by simp_all
qed

lemma tree_routes_sealing: "sealing ws ws' \<Longrightarrow> tree_routes ws' parent outer g = tree_routes ws parent outer g"
  by (simp add: tree_routes_def sealing_in_tree sealing_fields)

lemma tree_routes_step:
  "tree_routes ws parent outer g =
     (let gr = wi_groups ws g; pre = parent @ gr_prefix gr; ch = outer @ gr_middleware gr in
      {(route_pattern pre rt, chain (ro_handler rt) (ch @ ro_middleware rt)) | rt. rt \<in> set (gr_routes gr)} \<union>
      (\<Union>c \<in> set (gr_groups gr). tree_routes ws pre ch c))"
  unfolding tree_routes_def Let_def by (subst in_tree_step) blast

lemma register_routes_Ok:
  "register_routes reject pre ch rts mux = Ok mux' \<Longrightarrow>
     mux' = mux @ map (\<lambda>rt. (route_pattern pre rt, chain (ro_handler rt) (ch @ ro_middleware rt))) rts"
proof (induction rts arbitrary: mux)
  case (Cons rt rts)
  then have "register_routes reject pre ch rts (mux @ [(route_pattern pre rt, chain (ro_handler rt) (ch @ ro_middleware rt))]) = Ok mux'"
    by (simp add: res_simps mux_handle_def split: if_splits)
  from Cons.IH [OF this] show ?case by simp
qed simp

lemma each_child_Ok:
  assumes "\<And>c mux ws mux' ws'. f c mux ws = Some (Ok mux', ws') \<Longrightarrow> sealing ws ws' \<and>
      set mux' = set mux \<union> tree_routes ws pre ch c \<and>
      (\<forall>g' p h. in_tree (wi_groups ws) pre ch c g' p h \<longrightarrow> gr_sealed (wi_groups ws' g'))"
  shows "each_child f cs mux ws = Some (Ok mux', ws') \<Longrightarrow> sealing ws ws' \<and>
      set mux' = set mux \<union> (\<Union>c \<in> set cs. tree_routes ws pre ch c) \<and>
      (\<forall>c \<in> set cs. \<forall>g' p h. in_tree (wi_groups ws) pre ch c g' p h \<longrightarrow> gr_sealed (wi_groups ws' g'))"
proof (induction cs arbitrary: mux ws)
  case (Cons c cs)
  from Cons.prems obtain mux1 ws1 where
    1: "f c mux ws = Some (Ok mux1, ws1)" "each_child f cs mux1 ws1 = Some (Ok mux', ws')"
    unfolding each_child_Cons by auto
  note here = assms [OF 1(1)] and below = Cons.IH [OF 1(2)]
  have s: "sealing ws ws1" "sealing ws1 ws'" using here below by simp_all
  have "sealing ws ws'" using s by (rule sealing_trans)
  moreover have "set mux' = set mux \<union> (\<Union>c \<in> set (c # cs). tree_routes ws pre ch c)"
    using here below tree_routes_sealing [OF s(1)] by auto
  moreover have "\<forall>c' \<in> set (c # cs). \<forall>g' p h. in_tree (wi_groups ws) pre ch c' g' p h \<longrightarrow> gr_sealed (wi_groups ws' g')"
    using here below sealing_in_tree [OF s(1)] s(2) by (auto simp: sealing_def)
  ultimately show ?case by blast
qed simp

lemma compile_group_Ok:
  "compile_group n reject parent outer g mux ws = Some (Ok mux', ws') \<Longrightarrow> sealing ws ws' \<and>
     set mux' = set mux \<union> tree_routes ws parent outer g \<and>
     (\<forall>g' p h. in_tree (wi_groups ws) parent outer g g' p h \<longrightarrow> gr_sealed (wi_groups ws' g'))"
proof (induction n arbitrary: parent outer g mux ws mux' ws')
  case (Suc n)
  let ?gr = "wi_groups ws g"
  let ?pre = "parent @ gr_prefix ?gr"
  let ?ch = "outer @ gr_middleware ?gr"
  let ?ws = "set_group g (?gr\<lparr>gr_sealed := True\<rparr>) ws"
  obtain mux1 where r: "register_routes reject ?pre ?ch (gr_routes ?gr) mux = Ok mux1"
    and e: "each_child (compile_group n reject ?pre ?ch) (gr_groups ?gr) mux1 ?ws = Some (Ok mux', ws')"
    using Suc.prems by (auto simp: Let_def split: if_splits res.splits)
  have seal: "sealing ws ?ws" by (rule sealing_seal)
  have below: "sealing ?ws ws' \<and>
      set mux' = set mux1 \<union> (\<Union>c \<in> set (gr_groups ?gr). tree_routes ?ws ?pre ?ch c) \<and>
      (\<forall>c \<in> set (gr_groups ?gr). \<forall>g' p h. in_tree (wi_groups ?ws) ?pre ?ch c g' p h \<longrightarrow> gr_sealed (wi_groups ws' g'))"
    by (rule each_child_Ok [OF _ e]) (rule Suc.IH)
  note down = below [THEN conjunct1] and set_mux = below [THEN conjunct2, THEN conjunct1]
    and sealed = below [THEN conjunct2, THEN conjunct2]
  have "sealing ws ws'" using seal down by (rule sealing_trans)
  moreover have "set mux' = set mux \<union> tree_routes ws parent outer g"
  proof -
    have "set mux' = set mux1 \<union> (\<Union>c \<in> set (gr_groups ?gr). tree_routes ws ?pre ?ch c)"
      using set_mux by (simp only: tree_routes_sealing [OF seal])
    moreover have "set mux1 = set mux \<union> {(route_pattern ?pre rt, chain (ro_handler rt) (?ch @ ro_middleware rt)) | rt. rt \<in> set (gr_routes ?gr)}"
      using register_routes_Ok [OF r] by auto
    ultimately show ?thesis by (subst tree_routes_step) (simp only: Let_def Un_assoc)
  qed
  moreover have "gr_sealed (wi_groups ws' g)"
    using down by (simp add: sealing_def set_group_def)
  moreover have "gr_sealed (wi_groups ws' g')" if "in_tree (wi_groups ws) parent outer g g' p h" for g' p h
    using that calculation(3) sealed unfolding sealing_in_tree [OF seal] by (subst (asm) in_tree_step) fast
  ultimately show ?case by fast
qed simp


text \<open>Two nested groups for the witnesses: \<open>/api\<close> with a child \<open>/v1\<close> and one route each.\<close>

definition example_groups :: wiring where
  "example_groups =
     \<lparr>wi_groups = (\<lambda>g.
        if g = 0
        then \<lparr>gr_prefix = ''/api'', gr_middleware = [], gr_routes =
               [\<lparr>ro_method = ''GET'', ro_pattern = ''/a'', ro_handler = default_not_found, ro_middleware = []\<rparr>],
              gr_groups = [1], gr_errors = None, gr_not_found = None, gr_method_not_allowed = None, gr_sealed = False\<rparr>
        else \<lparr>gr_prefix = ''/v1'', gr_middleware = [], gr_routes =
               [\<lparr>ro_method = [], ro_pattern = ''/b'', ro_handler = default_not_found, ro_middleware = []\<rparr>],
              gr_groups = [], gr_errors = None, gr_not_found = None, gr_method_not_allowed = None, gr_sealed = False\<rparr>),
      wi_next = 2\<rparr>"

lemma example_groups_compile:
  "\<exists>mux ws'. compile_group 2 (\<lambda>_ _. False) [] [] 0 [] example_groups = Some (Ok mux, ws')"
  by (simp add: eval_nat_numeral example_groups_def Let_def mux_handle_def set_group_def)


text \<open>
  Claim C14 (safety). Compiling seals the whole tree, shared children included: afterwards every
  mutation of any group in it panics, so no route is added that would never be served.
\<close>

theorem compile_seals:
  assumes "compile_group n reject [] [] g [] ws = Some (Ok mux, ws')" "in_tree (wi_groups ws) [] [] g g' pre ch"
  shows "is_panic (group_use g' mws ws') \<and> is_panic (group_handle g' method pattern h mws ws') \<and>
    is_panic (group_handle_err g' method pattern fn mws ws') \<and> is_panic (group_set_error_writer g' ew ws') \<and>
    is_panic (group_set_not_found g' h' ws') \<and> is_panic (group_set_method_not_allowed g' h' ws') \<and>
    is_panic (group_mount g' child ws')"
proof -
  have "gr_sealed (wi_groups ws' g')" using compile_group_Ok [OF assms(1)] assms(2) by blast
  then have "is_panic (change_group g' f ws')" for f by (simp add: change_group_def check_seal_def)
  then show ?thesis
    by (simp add: group_use_def group_handle_def group_handle_err_def group_set_error_writer_def
        group_set_not_found_def group_set_method_not_allowed_def group_mount_def handle_def split: option.split)
qed

theorem compile_seals_witness:
  "\<exists>mux ws'. compile_group 2 (\<lambda>_ _. False) [] [] 0 [] example_groups = Some (Ok mux, ws') \<and>
     is_panic (group_use 1 [] ws')"
proof -
  obtain mux ws' where c: "compile_group 2 (\<lambda>_ _. False) [] [] 0 [] example_groups = Some (Ok mux, ws')"
    using example_groups_compile by blast
  have "in_tree (wi_groups example_groups) [] [] 0 1 (''/api'' @ ''/v1'') []"
    using in_tree.child [OF in_tree.root, of 1 "wi_groups example_groups" 0 "[]" "[]"]
    by (simp add: example_groups_def)
  with c show ?thesis using compile_seals [OF c] by blast
qed

section \<open>Fuel\<close>

lemma each_child_total:
  assumes "\<And>c mux ws. c \<in> set cs \<Longrightarrow> R ws \<Longrightarrow> f c mux ws \<noteq> None"
    and "\<And>c mux ws r ws'. f c mux ws = Some (r, ws') \<Longrightarrow> R ws \<Longrightarrow> R ws'"
  shows "R ws \<Longrightarrow> each_child f cs mux ws \<noteq> None"
  using assms(1)
proof (induction cs arbitrary: mux ws)
  case (Cons c cs)
  obtain r ws1 where "f c mux ws = Some (r, ws1)" using Cons.prems by fastforce
  moreover have "R ws1" using assms(2) calculation Cons.prems(1) by blast
  ultimately show ?case using Cons by (cases r) auto
qed simp

lemma compile_group_total:
  assumes "rank g < n" "\<And>g c. c \<in> set (gr_groups (wi_groups ws g)) \<Longrightarrow> rank c < (rank g :: nat)"
  shows "compile_group n reject parent outer g mux ws \<noteq> None"
  using assms
proof (induction n arbitrary: parent outer g mux ws)
  case (Suc n)
  let ?gr = "wi_groups ws g"
  let ?ws = "set_group g (?gr\<lparr>gr_sealed := True\<rparr>) ws"
  define R :: "wiring \<Rightarrow> bool" where "R v \<longleftrightarrow> (\<forall>g c. c \<in> set (gr_groups (wi_groups v g)) \<longrightarrow> rank c < rank g)" for v
  have keep: "R v'" if "sealing v v'" "R v" for v v'
    using that sealing_fields(2) [OF that(1)] by (simp add: R_def)
  have "R ws" using Suc.prems(2) by (simp add: R_def)
  then have "R ?ws" by (rule keep [OF sealing_seal])
  then have "each_child (compile_group n reject pre ch) (gr_groups ?gr) mux' ?ws \<noteq> None" for pre ch mux'
  proof (rule each_child_total [rotated 2])
    fix c mux v
    assume "c \<in> set (gr_groups ?gr)" "R v"
    then show "compile_group n reject pre ch c mux v \<noteq> None"
      using Suc.prems by (intro Suc.IH) (auto simp: R_def dest!: Suc.prems(2))
  next
    fix c mux v r v'
    assume "compile_group n reject pre ch c mux v = Some (r, v')" "R v"
    then show "R v'" using compile_group_sealing keep by blast
  qed
  then show ?case by (simp add: Let_def split: res.split)
qed simp

text \<open>
  Claim C13 (termination). On a mount graph without a cycle, compiling returns: a module or a panic,
  never running out of stack, whatever the mux rejects; depth many steps are enough.
\<close>

theorem compile_terminates:
  assumes "\<And>g c. c \<in> set (gr_groups (wi_groups ws g)) \<Longrightarrow> rank c < (rank g :: nat)"
  shows "\<exists>r ws'. new_module (Suc (rank g)) reject lookup g ws = Some (r, ws')"
  using compile_group_total [of rank g "Suc (rank g)" ws reject "[]" "[]" "[]", OF _ assms]
  by (auto simp: new_module_def Let_def simp del: compile_group.simps)

theorem compile_terminates_witness:
  "\<exists>r ws'. new_module 2 (\<lambda>_ _. False) (\<lambda>_ _. Missed (\<lambda>_ _. go_return ())) 0 example_groups = Some (r, ws')"
proof -
  let ?rank = "\<lambda>g :: nat. if g = 0 then 1 else (0 :: nat)"
  have "?rank c < ?rank g" if "c \<in> set (gr_groups (wi_groups example_groups g))" for g c
    using that by (auto simp: example_groups_def split: if_splits)
  from compile_terminates [of example_groups ?rank 0 "\<lambda>_ _. False" "\<lambda>_ _. Missed (\<lambda>_ _. go_return ())", OF this]
  show ?thesis by (simp add: numeral_2_eq_2)
qed

end
