(* ===== verification/Health.thy ===== *)
theory Health imports Group begin

text \<open>
  The probes (\<open>health.go\<close>). What a readiness check reports is read from outside, so the checks are a
  function of the state: a name, and \<open>None\<close> for a nil checker or what its \<open>Ready\<close> returns. What
  \<open>RegisterHealth\<close> needs of the thing it mounts on is the locale \<open>mounter\<close>, which both \<open>ServeMux\<close>
  and the router satisfy.
\<close>

section \<open>Probes\<close>

definition health_path :: string where "health_path = ''/healthz''"

definition ready_path :: string where "ready_path = ''/readyz''"

type_synonym checks = "world \<Rightarrow> (string \<times> bool option) list"

record check_result =
  ck_name :: string
  ck_ready :: bool

definition check_json :: "check_result \<Rightarrow> json" where
  "check_json c = JObj [(''name'', JStr (ck_name c)), (''ready'', JBool (ck_ready c))]"

definition ready_body_json :: "string \<Rightarrow> check_result list \<Rightarrow> json" where
  "ready_body_json status results =
     JObj ([(''status'', JStr status)] @
       (if results = [] then [] else [(''checks'', JArr (map check_json results))]))"

definition liveness :: handler where
  "liveness w a =
     go_seq (writer_header w (header_set ''Cache-Control'' ''no-store''))
       (go_bind (write_json w 200 (JObj [(''status'', JStr ''ok'')])) (\<lambda>_. go_return ()))"

definition check_results :: "(string \<times> bool option) list \<Rightarrow> check_result list" where
  "check_results participants =
     map (\<lambda>(name, checker). \<lparr>ck_name = name, ck_ready = (checker \<noteq> None \<and> the checker)\<rparr>) participants"

definition not_ready_problem :: "problem \<Rightarrow> problem" where
  "not_ready_problem p =
     (let p = p\<lparr>p_status := 503\<rparr>
      in if p_detail p = [] then p\<lparr>p_detail := ''one or more readiness checks failed''\<rparr> else p)"

definition with_checks :: "problem \<Rightarrow> check_result list \<Rightarrow> problem" where
  "with_checks p results =
     p\<lparr>p_extras := obj_put ''checks'' (JArr (map check_json results)) (obj_copy [] (p_extras p))\<rparr>"

definition readiness :: "problem \<Rightarrow> checks \<Rightarrow> handler" where
  "readiness not_ready checks w a =
     go_bind (go_read checks) (\<lambda>participants.
       let results = check_results participants
       in go_seq (writer_header w (header_set ''Cache-Control'' ''no-store''))
            (if \<not> list_all ck_ready results
             then go_bind (problem_write_for w a (with_checks (not_ready_problem not_ready) results)) (\<lambda>_. go_return ())
             else go_bind (write_json w 200 (ready_body_json ''ready'' results)) (\<lambda>_. go_return ())))"

text \<open>The exported \<open>Readiness\<close>: the same over a fixed list of checks, whose checkers still answer anew.\<close>

definition readiness_of :: "problem \<Rightarrow> (string \<times> (world \<Rightarrow> bool) option) list \<Rightarrow> handler" where
  "readiness_of not_ready checks =
     readiness not_ready (\<lambda>s. map (\<lambda>(name, checker). (name, map_option (\<lambda>ready. ready s) checker)) checks)"

text \<open>A doctor, when there is one: its own readiness and its checks.\<close>

definition register_health ::
  "(string \<Rightarrow> handler \<Rightarrow> 'm \<Rightarrow> (err, 'm) res) \<Rightarrow> ((world \<Rightarrow> bool) \<times> checks) option \<Rightarrow> problem \<Rightarrow> 'm \<Rightarrow> (err, 'm) res" where
  "register_health mount doctor not_ready m =
     (case doctor of
        None \<Rightarrow> Panic (''web: RegisterHealth requires a Doctor; pass the *lifecycle.Coordinator or a *lifecycle.Readiness node'' @ [CHR 0x27] @ ''s value'')
      | Some (ready, checks) \<Rightarrow>
          res_bind (mount (''GET '' @ health_path) liveness m) (\<lambda>m.
            mount (''GET '' @ ready_path)
              (readiness not_ready (\<lambda>s. (''lifecycle'', Some (ready s)) # checks s)) m))"

lemma not_ready_extras [simp]: "p_extras (not_ready_problem p) = p_extras p"
  by (simp add: not_ready_problem_def Let_def)

lemma with_checks_extras [simp]:
  "p_extras (with_checks p results) = obj_put ''checks'' (JArr (map check_json results)) (obj_copy [] (p_extras p))"
  by (simp add: with_checks_def)

section \<open>What a mounter promises\<close>

locale mounter =
  fixes mount :: "string \<Rightarrow> handler \<Rightarrow> 'm \<Rightarrow> (err, 'm) res"
    and mounted :: "'m \<Rightarrow> routes"
  assumes mount_adds: "mount pattern h m = Ok m' \<Longrightarrow> mounted m' = mounted m @ [(pattern, h)]"
begin

lemma register_health_mounts:
  "register_health mount (Some (ready, checks)) not_ready m = Ok m' \<Longrightarrow>
     mounted m' = mounted m @
       [(''GET /healthz'', liveness),
        (''GET /readyz'', readiness not_ready (\<lambda>s. (''lifecycle'', Some (ready s)) # checks s))]"
  by (auto simp: register_health_def res_simps health_path_def ready_path_def dest!: mount_adds)

end

interpretation mux_mounter: mounter "mux_handle reject" "\<lambda>mux. mux" for reject
  by unfold_locales (auto simp: mux_handle_def split: if_splits)

interpretation router_mounter: mounter "router_handle reject" rt_mux for reject
  by unfold_locales (auto simp: router_handle_def mux_handle_def res_simps split: if_splits)

section \<open>Properties\<close>

text \<open>
  Registering the probes on a router adds exactly two routes to its native mux,
  outside every module: liveness at \<open>GET /healthz\<close>, and at \<open>GET /readyz\<close> the readiness of the doctor
  itself, named \<open>lifecycle\<close>, and of its checks, read anew on every request.
\<close>

theorem register_health_routes:
  assumes "register_health (router_handle reject) (Some (ready, checks)) not_ready r = Ok r'"
  shows "rt_mux r' = rt_mux r @
      [(''GET /healthz'', liveness),
       (''GET /readyz'', readiness not_ready (\<lambda>s. (''lifecycle'', Some (ready s)) # checks s))] \<and>
    rt_modules r' = rt_modules r \<and> rt_middleware r' = rt_middleware r"
proof -
  have "rt_modules m' = rt_modules m \<and> rt_middleware m' = rt_middleware m" if "router_handle reject p h m = Ok m'" for p h m m'
    using that by (auto simp: router_handle_def res_simps)
  then have "rt_modules r' = rt_modules r \<and> rt_middleware r' = rt_middleware r"
    using assms by (fastforce simp: register_health_def res_simps)
  then show ?thesis using router_mounter.register_health_mounts [OF assms] by simp
qed

theorem register_health_routes_witness:
  "\<exists>r. register_health (router_handle (\<lambda>_ _. False)) (Some (\<lambda>_. True, \<lambda>_. [])) (status_problem 0) new_router = Ok r \<and>
     map fst (rt_mux r) = [''GET /healthz'', ''GET /readyz'']"
proof -
  obtain r where r: "register_health (router_handle (\<lambda>_ _. False)) (Some (\<lambda>_. True, \<lambda>_. [])) (status_problem 0) new_router = Ok r"
    by (simp add: register_health_def router_handle_def mux_handle_def)
  from register_health_routes [OF r] r show ?thesis by (simp add: new_router_def)
qed

text \<open>
  Claim C35 (functional). Readiness on an untouched response answers 200 exactly when every check is
  ready, none at all included, a nil checker never being ready; otherwise a 503 problem, whatever
  status it was configured with. Either document lists every check with its state, and neither
  answer may be stored.
\<close>

theorem readiness_answers:
  assumes "writer_base w s = Conn" "w_conn_err s = None" "w_sent s = None" "declared_length (w_header s) = None"
    "\<forall>kv \<in> set (p_extras nr). encodable (snd kv)" "obj_wf (p_extras nr)"
    and ready: "ready = (\<forall>c \<in> set (checks s). snd c = Some True)"
    and q: "q = apply_defaults (problem_for (req a s) (with_checks (not_ready_problem nr) (check_results (checks s))))"
  shows "\<exists>t doc. readiness nr checks w a s = (Done (), t) \<and>
    map_option fst (w_sent t) = Some (if ready then 200 else 503) \<and>
    header_get (conn_header t) ''Cache-Control'' = ''no-store'' \<and> w_body t = w_body s @ doc @ [CHR 0x0A] \<and>
    encode_json (if ready then ready_body_json ''ready'' (check_results (checks s)) else marshal_problem q) = Some doc \<and>
    map_of (json_members (marshal_problem q)) ''checks'' = Some (JArr (map check_json (check_results (checks s))))"
proof -
  let ?h = "header_set ''Cache-Control'' ''no-store'' (w_header s)"
  let ?u = "s\<lparr>w_header := ?h\<rparr>"
  have ready': "list_all ck_ready (check_results (checks s)) = ready"
  proof -
    have "(snd c \<noteq> None \<and> the (snd c)) = (snd c = Some True)" for c :: "string \<times> bool option"
      by (cases "snd c") auto
    then show ?thesis by (simp add: ready check_results_def list_all_iff split_beta)
  qed
  have u: "writer_header w (header_set ''Cache-Control'' ''no-store'') s = (Done (), ?u)" "untouched w ?u"
    "req a ?u = req a s"
    using assms(1-4) by (simp_all add: conn_steps untouched_def declared_length_def req_def)
  have status: "p_status q = 503"
    by (simp add: q with_checks_def not_ready_problem_def apply_defaults_def Let_def)
  have checks: "encodable (JArr (map check_json (check_results (checks s))))"
    by (auto simp: list_all_iff check_json_def)
  have extras: "\<forall>kv \<in> set (p_extras (with_checks (not_ready_problem nr) (check_results (checks s)))). encodable (snd kv)"
  proof
    fix kv
    assume "kv \<in> set (p_extras (with_checks (not_ready_problem nr) (check_results (checks s))))"
    then have "kv \<in> set (obj_put ''checks'' (JArr (map check_json (check_results (checks s)))) (obj_copy [] (p_extras nr)))"
      by (simp only: with_checks_extras not_ready_extras)
    then have "kv = (''checks'', JArr (map check_json (check_results (checks s)))) \<or> kv \<in> set (p_extras nr)"
      by (rule set_put_copy)
    then show "encodable (snd kv)" using assms(5) checks by auto
  qed
  have member: "map_of (json_members (marshal_problem q)) ''checks'' = Some (JArr (map check_json (check_results (checks s))))"
  proof -
    have wf: "obj_wf (p_extras (with_checks (not_ready_problem nr) (check_results (checks s))))"
      using assms(6) by (auto simp: with_checks_def not_ready_problem_def Let_def obj_wf_def
          intro!: obj_put_sorted obj_copy_sorted)
    have "map_of (p_extras (with_checks (not_ready_problem nr) (check_results (checks s)))) ''checks'' =
        Some (JArr (map check_json (check_results (checks s))))"
      by (simp add: with_checks_def)
    then have "map_of (p_extras q) ''checks'' = Some (JArr (map check_json (check_results (checks s))))"
      using problem_for_extras [OF wf, of "req a s" "''checks''"] by (simp add: q request_id_member_def)
    moreover have "obj_wf (p_extras q)" using problem_for_wf [OF wf, of "req a s"] by (simp add: q)
    ultimately show ?thesis by (simp add: marshal_lookup(1))
  qed
  show ?thesis
  proof (cases ready)
    case True
    have "encodable (ready_body_json ''ready'' (check_results (checks s)))"
      using checks by (simp add: ready_body_json_def)
    then obtain doc where "encode_json (ready_body_json ''ready'' (check_results (checks s))) = Some doc"
      using encode_json_None [of "ready_body_json ''ready'' (check_results (checks s))"] by auto
    from json_sends [OF u(2) _ _ _ this, of 200]
    show ?thesis
      using u ready' True member
      by (auto simp: sends_def body_allowed_def readiness_def go_simps)
  next
    case False
    from problem_sends [OF u(2) _ _ _ extras, of q a]
    have "sends w (problem_write_for w a (with_checks (not_ready_problem nr) (check_results (checks s)))) 503
        problem_media_type (marshal_problem q) ?u"
      using status u(3) q by (simp add: body_allowed_def)
    then show ?thesis
      using u ready' False member
      by (auto simp: sends_def readiness_def go_simps)
  qed
qed

theorem readiness_answers_witness:
  "\<exists>t. readiness (status_problem 0) (\<lambda>_. [(''db'', Some True), (''cache'', None)]) (Base Conn) 0 example_world = (Done (), t) \<and>
     map_option fst (w_sent t) = Some 503"
  using readiness_answers [of "Base Conn" example_world "status_problem 0" False "\<lambda>_. [(''db'', Some True), (''cache'', None)]"
      _ 0, OF _ _ _ _ _ _ _ refl]
  by (auto simp: writer_base_def example_world_def declared_length_def header_get_def parse_int_def status_problem_def
      obj_wf_def)

end
