(* ===== verification/Observing.thy ===== *)
theory Observing imports Health begin

text \<open>
  The two middlewares that watch a handler through the shared recorder: \<open>RequestLogger\<close>
  (\<open>middleware/logger.go\<close>) and \<open>Recoverer\<close> (\<open>middleware/recoverer.go\<close>).
\<close>

section \<open>The request logger\<close>

definition append_request_id :: "(string \<times> attr_value) list \<Rightarrow> request \<Rightarrow> (string \<times> attr_value) list" where
  "append_request_id attrs r =
     (case request_id_from (r_ctx r) of
        Some rid \<Rightarrow> if rid \<noteq> [] then attrs @ [(''request_id'', AStr rid)] else attrs
      | None \<Rightarrow> attrs)"

definition blank :: "char \<Rightarrow> bool" where
  "blank c \<longleftrightarrow> c = CHR '' '' \<or> c = CHR 0x09"

text \<open>\<open>strings.IndexAny(pattern, " \t")\<close> splits the pattern; the blanks after it are skipped.\<close>

definition route_of :: "string \<Rightarrow> string" where
  "route_of pattern =
     (case dropWhile (\<lambda>c. \<not> blank c) pattern of
        [] \<Rightarrow> pattern
      | _ # rest \<Rightarrow> trim_left rest [CHR '' '', CHR 0x09])"

definition logged_status :: "nat \<Rightarrow> bool \<Rightarrow> world \<Rightarrow> int" where
  "logged_status i returned s =
     (if recorder_committed i s then recorder_status i s else if returned then 200 else 500)"

definition is_probe :: "request \<Rightarrow> bool" where
  "is_probe r \<longleftrightarrow> r_path r = health_path \<or> r_path r = ready_path"

definition request_record :: "request \<Rightarrow> int \<Rightarrow> int \<Rightarrow> log_record" where
  "request_record r status duration =
     \<lparr>lg_level = (if is_probe r \<and> 200 \<le> status \<and> status < 300 then Debug else Info),
      lg_message = ''request'',
      lg_attrs = append_request_id
        ([(''http.request.method'', AStr (r_method r)), (''url.path'', AStr (r_path r))] @
         (if route_of (r_pattern r) \<noteq> [] then [(''http.route'', AStr (route_of (r_pattern r)))] else []) @
         [(''http.response.status_code'', AInt status), (''duration'', ADuration duration),
          (''client.address'', AStr (r_remote r))]) r\<rparr>"

definition add_record :: "log_record \<Rightarrow> world \<Rightarrow> world" where
  "add_record lg s = s\<lparr>w_log := w_log s @ [lg]\<rparr>"

text \<open>
  The deferred log runs however the handler ended. It reads the request at the address the logger
  was called with, so it sees what was set in that very request.
\<close>

definition logger_serve :: "handler \<Rightarrow> handler" where
  "logger_serve inner w a s =
     go_bind (wrap_writer w) (\<lambda>i s1.
       case inner (Rec i) a s1 of
         (r, s2) \<Rightarrow>
           (r, add_record (request_record (req a s2) (logged_status i (r = Done ()) s2) (w_clock s2 - w_clock s)) s2)) s"

definition request_logger :: "bool \<Rightarrow> (err, middleware) res" where
  "request_logger logger =
     (if \<not> logger then Panic ''middleware: RequestLogger requires a *slog.Logger'' else Ok logger_serve)"

section \<open>The recoverer\<close>

definition recover_attrs :: "request \<Rightarrow> (string \<times> attr_value) list" where
  "recover_attrs r =
     append_request_id
       [(''http.request.method'', AStr (r_method r)), (''url.path'', AStr (r_path r)),
        (''client.address'', AStr (r_remote r))] r"

definition panic_record :: "request \<Rightarrow> int option \<Rightarrow> panic_value \<Rightarrow> log_record" where
  "panic_record r status p =
     \<lparr>lg_level = Error, lg_message = ''handler panicked'',
      lg_attrs = recover_attrs r @
        (case status of None \<Rightarrow> [] | Some st \<Rightarrow> [(''http.response.status_code'', AInt st)]) @
        [(''panic'', APanic p), (''stack'', AStack)]\<rparr>"

definition recovered :: "nat \<Rightarrow> nat \<Rightarrow> panic_value \<Rightarrow> unit go" where
  "recovered i a p s =
     (let r = req a s;
          committed = recorder_committed i s;
          s1 = add_record (panic_record r (if committed then Some (recorder_status i s) else None) p) s
      in if committed then (Panicked AbortHandler, s1)
         else
           go_bind (write_problem (Rec i) a 500 [] ''The server encountered an unexpected condition.'') (\<lambda>e.
             case e of
               None \<Rightarrow> go_return ()
             | Some e \<Rightarrow>
                 go_modify (\<lambda>s2. add_record
                   \<lparr>lg_level = Error, lg_message = ''failed to write problem response'',
                    lg_attrs = recover_attrs r @
                      [(''http.response.status_code'', AInt (recorder_status i s2)), (''error'', AStr (error_text e))]\<rparr> s2)) s1)"

definition recoverer_serve :: "handler \<Rightarrow> handler" where
  "recoverer_serve inner w a =
     go_bind (wrap_writer w) (\<lambda>i s1.
       case inner (Rec i) a s1 of
         (Done _, s2) \<Rightarrow> (Done (), s2)
       | (Panicked AbortHandler, s2) \<Rightarrow> (Panicked AbortHandler, s2)
       | (Panicked p, s2) \<Rightarrow> recovered i a p s2)"

definition recoverer :: "bool \<Rightarrow> (err, middleware) res" where
  "recoverer logger =
     (if \<not> logger then Panic ''middleware: Recoverer requires a *slog.Logger'' else Ok recoverer_serve)"

section \<open>Logging\<close>

lemma wrap_writer_log: "wrap_writer w s = (r, s1) \<Longrightarrow> w_log s1 = w_log s \<and> w_clock s1 = w_clock s"
  by (auto simp: wrap_writer_def split: writer.splits)

lemma logger_serve_run:
  assumes "wrap_writer w s = (Done i, s1)" "inner (Rec i) a s1 = (r, s2)"
  shows "logger_serve inner w a s =
    (r, add_record (request_record (req a s2) (logged_status i (r = Done ()) s2) (w_clock s2 - w_clock s)) s2)"
  using assms by (simp add: logger_serve_def go_simps)

text \<open>The status the client sees of a handled request: what was sent, or \<open>net/http\<close>'s implicit 200.\<close>

definition client_status :: "bool \<Rightarrow> world \<Rightarrow> int" where
  "client_status returned s =
     (case w_sent s of Some (st, _) \<Rightarrow> st | None \<Rightarrow> if returned then 200 else 500)"

lemma logged_status_true:
  assumes "rec_reachable i s" "w_conn_err s = None"
  shows "logged_status i returned s = client_status returned s"
  using rec_reachable_inv [OF assms(1)] assms(2)
  by (auto simp: rec_inv_def logged_status_def client_status_def split: option.splits if_splits)

lemma request_record_status: "(''http.response.status_code'', AInt st) \<in> set (lg_attrs (request_record r st d))"
  by (auto simp: request_record_def append_request_id_def split: option.split)

text \<open>
  \<open>RequestLogger\<close> is transparent and truthful: the handler's outcome, a panic
  included, and its effects are kept; exactly one record is added; and while the connection works
  the status it carries is the one the client got: the status sent, the implicit 200 of a handler
  that wrote nothing, or 500 for a panic with nothing on the wire.
\<close>

theorem logger_truthful:
  assumes "wrap_writer (Base Conn) s = (Done i, s1)" "inner (Rec i) a s1 = (r, s2)"
    "rec_reachable i s2" "w_conn_err s2 = None"
  shows "\<exists>lg. logger_serve inner (Base Conn) a s = (r, s2\<lparr>w_log := w_log s2 @ [lg]\<rparr>) \<and>
    lg_message lg = ''request'' \<and>
    (''http.response.status_code'', AInt (client_status (r = Done ()) s2)) \<in> set (lg_attrs lg)"
proof -
  let ?lg = "request_record (req a s2) (client_status (r = Done ()) s2) (w_clock s2 - w_clock s)"
  have "logger_serve inner (Base Conn) a s = (r, s2\<lparr>w_log := w_log s2 @ [?lg]\<rparr>)"
    using logger_serve_run [of "Base Conn" s i s1 inner a, OF assms(1,2)] logged_status_true [OF assms(3,4)]
    by (simp add: add_record_def)
  moreover have "lg_message ?lg = ''request''" by (simp add: request_record_def)
  ultimately show ?thesis using request_record_status by blast
qed

text \<open>A handler that panics at once, and one that answers 404.\<close>

definition panicking :: handler where
  "panicking w a = go_panic (PanicValue ''boom'')"

definition answering :: "int \<Rightarrow> handler" where
  "answering status w a = writer_write_header w status"

lemma example_wrap: "wrap_writer (Base Conn) example_world = (Done 0, snd (wrap_writer (Base Conn) example_world))"
  by (simp add: wrap_writer_def example_world_def)

lemma example_wrapped:
  "rec_reachable 0 (snd (wrap_writer (Base Conn) example_world))"
  "\<not> recorder_committed 0 (snd (wrap_writer (Base Conn) example_world))"
  "w_conn_err (snd (wrap_writer (Base Conn) example_world)) = None"
  "w_sent (snd (wrap_writer (Base Conn) example_world)) = None"
  "w_log (snd (wrap_writer (Base Conn) example_world)) = []"
  "declared_length (w_header (snd (wrap_writer (Base Conn) example_world))) = None"
  "rc_inner (w_recs (snd (wrap_writer (Base Conn) example_world)) 0) = Conn"
  by (rule rec_reachable.start [OF _ example_wrap])
    (simp_all add: wrap_writer_def example_world_def recorder_committed_def declared_length_def header_get_def parse_int_def)

theorem logger_truthful_witness:
  "\<exists>t lg. logger_serve panicking (Base Conn) 0 example_world = (Panicked (PanicValue ''boom''), t) \<and> w_log t = [lg] \<and>
     (''http.response.status_code'', AInt 500) \<in> set (lg_attrs lg)"
proof -
  let ?s1 = "snd (wrap_writer (Base Conn) example_world)"
  have "panicking (Rec 0) 0 ?s1 = (Panicked (PanicValue ''boom''), ?s1)" by (simp add: panicking_def)
  from logger_truthful [where inner = panicking, OF example_wrap this example_wrapped(1,3)] show ?thesis
    using example_wrapped(4,5) by (auto simp: client_status_def)
qed

section \<open>Recovering\<close>

lemma recoverer_serve_run:
  assumes "wrap_writer w s = (Done i, s1)" "inner (Rec i) a s1 = (r, s2)"
  shows "recoverer_serve inner w a s =
    (case r of
       Done _ \<Rightarrow> (Done (), s2)
     | Panicked AbortHandler \<Rightarrow> (Panicked AbortHandler, s2)
     | Panicked (PanicValue v) \<Rightarrow> recovered i a (PanicValue v) s2)"
  using assms by (simp add: recoverer_serve_def go_simps split: outcome.split panic_value.split)

lemma write_problem_Done:
  assumes "200 \<le> status" "status \<le> 999"
  shows "\<exists>e t. write_problem w a status title detail s = (Done e, t)"
proof -
  have "p_status (apply_defaults (problem_for (req a s) ((status_problem status)\<lparr>p_title := title, p_detail := detail\<rparr>))) = status"
    using assms by (simp add: apply_defaults_def Let_def status_problem_def)
  then show ?thesis
    using writer.send_json_status [OF assms, of w problem_media_type _ s]
    by (fastforce simp: write_problem_def problem_write_for_def problem_write_def Let_def)
qed

lemma recovered_outcome: "fst (recovered i a p s) \<in> {Done (), Panicked AbortHandler}"
proof -
  let ?s1 = "add_record (panic_record (req a s) None p) s"
  obtain e t where "write_problem (Rec i) a 500 [] ''The server encountered an unexpected condition.'' ?s1 = (Done e, t)"
    using write_problem_Done [of 500 "Rec i" a "[]"] by fastforce
  then show ?thesis by (simp add: recovered_def Let_def go_simps split: option.split)
qed

text \<open>
  Behind \<open>Recoverer\<close> no handler panic escapes, whatever the handler, the writer and
  the connection do: the request ends normally, or with the one panic \<open>net/http\<close> understands,
  \<open>http.ErrAbortHandler\<close>.
\<close>

theorem recoverer_contains_panics:
  "fst (recoverer_serve inner w a s) \<in> {Done (), Panicked AbortHandler}"
proof -
  obtain i s1 where w: "wrap_writer w s = (Done i, s1)" using wrap_writer_Done by blast
  obtain r s2 where n: "inner (Rec i) a s1 = (r, s2)" by fastforce
  show ?thesis
    using recovered_outcome
    by (simp add: recoverer_serve_run [where inner = inner, OF w n] split: outcome.split panic_value.split)
qed

lemma recoverer_panic_answer:
  assumes "wrap_writer (Base Conn) s = (Done i, s1)" "inner (Rec i) a s1 = (Panicked (PanicValue v), s2)"
    "rec_reachable i s2" "w_conn_err s2 = None" "declared_length (w_header s2) = None"
  shows "\<exists>t lg. lg_level lg = Error \<and> (''panic'', APanic (PanicValue v)) \<in> set (lg_attrs lg) \<and>
    w_log t = w_log s2 @ [lg] \<and>
    (if recorder_committed i s2
     then recoverer_serve inner (Base Conn) a s = (Panicked AbortHandler, t) \<and> t = s2\<lparr>w_log := w_log t\<rparr> \<and>
       (''http.response.status_code'', AInt (recorder_status i s2)) \<in> set (lg_attrs lg)
     else recoverer_serve inner (Base Conn) a s = (Done (), t) \<and> map_option fst (w_sent t) = Some 500 \<and>
       header_get (conn_header t) ''Content-Type'' = problem_media_type)"
proof (cases "recorder_committed i s2")
  case True
  let ?lg = "panic_record (req a s2) (Some (recorder_status i s2)) (PanicValue v)"
  have "recoverer_serve inner (Base Conn) a s = (Panicked AbortHandler, add_record ?lg s2)"
    using True by (simp add: recoverer_serve_run [where inner = inner, OF assms(1,2)] recovered_def Let_def)
  then show ?thesis
    using True by (intro exI [of _ "add_record ?lg s2"] exI [of _ ?lg]) (simp add: add_record_def panic_record_def)
next
  case False
  let ?lg = "panic_record (req a s2) None (PanicValue v)"
  let ?s3 = "add_record ?lg s2"
  let ?p = "(status_problem 500)\<lparr>p_title := [], p_detail := ''The server encountered an unexpected condition.''\<rparr>"
  have inv: "rec_inv i s2" using assms(3) by (rule rec_reachable_inv)
  have "untouched (Rec i) ?s3"
    using inv assms(4,5) False by (auto simp: untouched_def rec_inv_def add_record_def writer_base_def)
  from problem_sends [OF this, of "apply_defaults (problem_for (req a ?s3) ?p)" ?p a]
  have "sends (Rec i) (write_problem (Rec i) a 500 [] ''The server encountered an unexpected condition.'') 500 problem_media_type
      (marshal_problem (apply_defaults (problem_for (req a ?s3) ?p))) ?s3"
    by (simp add: write_problem_def apply_defaults_def Let_def status_problem_def body_allowed_def)
  then obtain t where t: "write_problem (Rec i) a 500 [] ''The server encountered an unexpected condition.'' ?s3 = (Done None, t)"
    "map_option fst (w_sent t) = Some 500" "header_get (conn_header t) ''Content-Type'' = problem_media_type"
    "same_outside ?s3 t"
    by (auto simp: sends_def)
  have "recoverer_serve inner (Base Conn) a s = (Done (), t)"
    using False t(1) by (simp add: recoverer_serve_run [where inner = inner, OF assms(1,2)] recovered_def Let_def go_simps)
  moreover have "w_log t = w_log s2 @ [?lg]" using t(4) by (simp add: same_outside_def add_record_def)
  ultimately show ?thesis
    using False t(2,3) by (intro exI [of _ t] exI [of _ ?lg]) (simp add: panic_record_def)
qed



section \<open>Both layers\<close>

lemma rec_step_add_record: "rec_step i s (add_record lg s)"
  by (rule rec_step.environment) (simp_all add: add_record_def)

lemma logged_request:
  assumes "inner (Rec i) a s1 = (r, s2)" "rec_reachable i s2" "w_conn_err s2 = None"
  shows "\<exists>lg. logger_serve inner (Rec i) a s1 = (r, add_record lg s2) \<and> lg_message lg = ''request'' \<and>
    (''http.response.status_code'', AInt (client_status (r = Done ()) s2)) \<in> set (lg_attrs lg)"
proof -
  have wrap: "wrap_writer (Rec i) s1 = (Done i, s1)" by (simp add: wrap_writer_def)
  let ?lg = "request_record (req a s2) (client_status (r = Done ()) s2) (w_clock s2 - w_clock s1)"
  have "logger_serve inner (Rec i) a s1 = (r, add_record ?lg s2)"
    using logger_serve_run [where inner = inner, OF wrap assms(1)] logged_status_true [OF assms(2,3)] by simp
  moreover have "lg_message ?lg = ''request''" by (simp add: request_record_def)
  ultimately show ?thesis using request_record_status by blast
qed

lemma recovered_status:
  assumes "wrap_writer (Base Conn) s = (Done i, s1)" "inner (Rec i) a s1 = (Panicked (PanicValue v), s2)"
    "rec_reachable i s2" "w_conn_err s2 = None" "declared_length (w_header s2) = None"
  shows "\<exists>t. snd (recoverer_serve inner (Base Conn) a s) = t \<and> set (w_log s2) \<subseteq> set (w_log t) \<and>
    map_option fst (w_sent t) = Some (if recorder_committed i s2 then recorder_status i s2 else 500)"
proof -
  obtain t lg where "w_log t = w_log s2 @ [lg] \<and>
    (if recorder_committed i s2
     then recoverer_serve inner (Base Conn) a s = (Panicked AbortHandler, t) \<and> t = s2\<lparr>w_log := w_log t\<rparr> \<and>
       (''http.response.status_code'', AInt (recorder_status i s2)) \<in> set (lg_attrs lg)
     else recoverer_serve inner (Base Conn) a s = (Done (), t) \<and> map_option fst (w_sent t) = Some 500 \<and>
       header_get (conn_header t) ''Content-Type'' = problem_media_type)"
    using recoverer_panic_answer [where inner = inner, OF assms] by blast
  then have t: "w_log t = w_log s2 @ [lg]"
    "if recorder_committed i s2
     then recoverer_serve inner (Base Conn) a s = (Panicked AbortHandler, t) \<and> t = s2\<lparr>w_log := w_log t\<rparr>
     else recoverer_serve inner (Base Conn) a s = (Done (), t) \<and> map_option fst (w_sent t) = Some 500"
    by (cases "recorder_committed i s2"; simp)+
  have "w_sent t = w_sent s2" if "recorder_committed i s2"
    using t(2) that by (auto dest: arg_cong [where f = w_sent])
  then show ?thesis
    using t rec_reachable_inv [OF assms(3)] assms(4) by (auto simp: rec_inv_def split: if_splits)
qed

text \<open>
  With \<open>Recoverer\<close> around \<open>RequestLogger\<close> the log and the wire agree: since both
  share one recorder, the status logged for the request is the status the client gets, even when
  the handler panics and the response is only written afterwards, by the outer layer.
\<close>

theorem layers_agree:
  assumes "wrap_writer (Base Conn) s = (Done i, s1)" "h (Rec i) a s1 = (r, s2)"
    "rec_reachable i s2" "w_conn_err s2 = None" "declared_length (w_header s2) = None" "r \<noteq> Panicked AbortHandler"
  shows "\<exists>t lg st. snd (recoverer_serve (logger_serve h) (Base Conn) a s) = t \<and>
    lg \<in> set (w_log t) \<and> lg_message lg = ''request'' \<and>
    (''http.response.status_code'', AInt st) \<in> set (lg_attrs lg) \<and>
    (case w_sent t of Some (sent, _) \<Rightarrow> sent = st | None \<Rightarrow> st = 200 \<and> r = Done ())"
proof -
  obtain lg s3 where log: "logger_serve h (Rec i) a s1 = (r, s3)" "s3 = add_record lg s2"
    and lg: "lg_message lg = ''request''"
      "(''http.response.status_code'', AInt (client_status (r = Done ()) s2)) \<in> set (lg_attrs lg)"
    using logged_request [where inner = h, OF assms(2-4)] by blast
  have in_log: "lg \<in> set (w_log s3)" using log(2) by (simp add: add_record_def)
  show ?thesis
  proof (cases r)
    case (Done x)
    have "snd (recoverer_serve (logger_serve h) (Base Conn) a s) = s3"
      using recoverer_serve_run [where inner = "logger_serve h", OF assms(1) log(1)] Done by simp
    moreover have "case w_sent s3 of Some (sent, _) \<Rightarrow> sent = client_status (r = Done ()) s2
        | None \<Rightarrow> client_status (r = Done ()) s2 = 200 \<and> r = Done ()"
      using Done log(2) by (auto simp: add_record_def client_status_def split: option.split)
    ultimately show ?thesis using lg in_log by blast
  next
    case (Panicked p)
    then obtain v where v: "r = Panicked (PanicValue v)" using assms(6) by (cases p) auto
    have reach: "rec_reachable i s3"
      using rec_step_add_record [of i s2 lg] log(2) by (auto intro: rec_reachable.step [OF assms(3)])
    have ok: "w_conn_err s3 = None" "declared_length (w_header s3) = None"
      using assms(4,5) log(2) by (simp_all add: add_record_def)
    have run: "logger_serve h (Rec i) a s1 = (Panicked (PanicValue v), s3)" using log(1) v by simp
    obtain t where t: "snd (recoverer_serve (logger_serve h) (Base Conn) a s) = t" "set (w_log s3) \<subseteq> set (w_log t)"
      "map_option fst (w_sent t) = Some (if recorder_committed i s3 then recorder_status i s3 else 500)"
      using recovered_status [where inner = "logger_serve h", OF assms(1) run reach ok] by blast
    have "client_status (r = Done ()) s2 = (if recorder_committed i s3 then recorder_status i s3 else 500)"
      using rec_reachable_inv [OF assms(3)] assms(4) v log(2)
      by (auto simp: rec_inv_def client_status_def recorder_committed_def recorder_status_def add_record_def
          split: option.split if_splits)
    then show ?thesis using t lg in_log
      by (intro exI [of _ t] exI [of _ lg] exI [of _ "client_status (r = Done ()) s2"]) (auto split: option.split)
  qed
qed

theorem layers_agree_witness:
  "\<exists>t lg. snd (recoverer_serve (logger_serve panicking) (Base Conn) 0 example_world) = t \<and> lg \<in> set (w_log t) \<and>
     (\<exists>st. (''http.response.status_code'', AInt st) \<in> set (lg_attrs lg) \<and> map_option fst (w_sent t) = Some st)"
proof -
  let ?s1 = "snd (wrap_writer (Base Conn) example_world)"
  have "panicking (Rec 0) 0 ?s1 = (Panicked (PanicValue ''boom''), ?s1)" by (simp add: panicking_def)
  from layers_agree [where h = panicking, OF example_wrap this example_wrapped(1,3,6)] show ?thesis
    by (fastforce split: option.splits)
qed

end
