(* ===== verification/Webtest.thy ===== *)
theory Webtest imports Observing Handler begin

text \<open>
  The integration toolkit (\<open>webtest/client.go\<close>, \<open>webtest/live.go\<close>): how a client builds a request and
  reads a response. The transport and the parsing of JSON text are parameters; a test that fails is
  a \<open>Fail\<close> with the failure's text.
\<close>

section \<open>Requests\<close>

text \<open>\<open>fmt.Sprintf("%q", fmt.Sprint(version))\<close>\<close>

definition test_if_match :: "int \<Rightarrow> string \<times> string" where
  "test_if_match version = (''If-Match'', go_quote (show_int version))"

record raw_body =
  rb_content_type :: string
  rb_body :: string

text \<open>A body argument: nil, a \<open>Raw\<close> or \<open>*Raw\<close>, bytes or a string, or any value to encode as JSON.\<close>

datatype test_body = NoBody | RawBody raw_body | Bytes string | Value json

record client_request =
  cq_method :: string
  cq_url :: string
  cq_header :: header
  cq_body :: "string option"

record test_response =
  te_status :: int
  te_header :: header
  te_body :: string

definition trim_right :: "string \<Rightarrow> char \<Rightarrow> string" where
  "trim_right s c = rev (dropWhile (\<lambda>x. x = c) (rev s))"

text \<open>
  \<open>newHTTPClient\<close> on a clone of the default transport, and the client over it; \<open>failsafe\<close> is \<open>go-core\<close>'s
  \<open>processtest.Failsafe\<close>, in nanoseconds like every \<open>Duration\<close>.
\<close>

record http_client =
  hc_timeout :: int
  hc_max_conns :: int
  hc_max_idle :: int

definition new_http_client :: "int \<Rightarrow> http_client" where
  "new_http_client limit = \<lparr>hc_timeout = limit, hc_max_conns = 1, hc_max_idle = 1\<rparr>"

record client =
  cl_base :: string
  cl_http :: http_client

definition new_client :: "int \<Rightarrow> string \<Rightarrow> client" where
  "new_client failsafe url = \<lparr>cl_base = trim_right url CHR ''/'', cl_http = new_http_client failsafe\<rparr>"

text \<open>The bytes sent and the content type, or the failure to encode.\<close>

definition body_reader :: "test_body \<Rightarrow> (err, string option \<times> string) res" where
  "body_reader body =
     (case body of
        NoBody \<Rightarrow> Ok (None, ''application/json'')
      | RawBody b \<Rightarrow> Ok (Some (rb_body b), rb_content_type b)
      | Bytes b \<Rightarrow> Ok (Some b, ''application/json'')
      | Value v \<Rightarrow>
          (case encode_json v of
             None \<Rightarrow> Fail (Text (''encode body: '' @ error_text encode_error))
           | Some doc \<Rightarrow> Ok (Some doc, ''application/json'')))"

definition build_request :: "string \<Rightarrow> string \<Rightarrow> string \<Rightarrow> test_body \<Rightarrow> (string \<times> string) list \<Rightarrow> (err, client_request) res" where
  "build_request base method path body headers =
     res_bind (body_reader body) (\<lambda>(sent, content_type).
       let h = (if body \<noteq> NoBody \<and> content_type \<noteq> [] then header_set ''Content-Type'' content_type (\<lambda>_. []) else (\<lambda>_. []));
           h = fold (\<lambda>(name, v). header_set name v) headers h
       in Ok \<lparr>cq_method = method, cq_url = base @ path, cq_header = h, cq_body = sent\<rparr>)"

text \<open>
  \<open>accepts\<close> is \<open>http.NewRequest\<close>'s own check of method and URL; \<open>send\<close> is the transport under a
  client's settings: a status, a header and a body, read to its end.
\<close>

definition client_do ::
  "(string \<Rightarrow> string \<Rightarrow> err option) \<Rightarrow> (http_client \<Rightarrow> client_request \<Rightarrow> err + (int \<times> header \<times> body)) \<Rightarrow> client \<Rightarrow>
   string \<Rightarrow> string \<Rightarrow> test_body \<Rightarrow> (string \<times> string) list \<Rightarrow> (err, test_response) res" where
  "client_do accepts send c method path body headers =
     res_bind (build_request (cl_base c) method path body headers) (\<lambda>rq.
       case accepts method (cl_base c @ path) of
         Some e \<Rightarrow> Fail (Text (''build request: '' @ error_text e))
       | None \<Rightarrow>
           (case send (cl_http c) rq of
              Inl e \<Rightarrow> Fail (Text (method @ '' '' @ path @ '': '' @ error_text e))
            | Inr (status, h, b) \<Rightarrow>
                if b_end b \<noteq> EOF then Fail (Text (method @ '' '' @ path @ '': read body: '' @ error_text (b_end b)))
                else Ok \<lparr>te_status = status, te_header = h, te_body = b_data b\<rparr>))"

definition client_get where "client_get accepts send c path = client_do accepts send c ''GET'' path NoBody"

definition client_post where "client_post accepts send c path body = client_do accepts send c ''POST'' path body"

definition client_put where "client_put accepts send c path body = client_do accepts send c ''PUT'' path body"

definition client_delete where "client_delete accepts send c path = client_do accepts send c ''DELETE'' path NoBody"

section \<open>Responses\<close>

definition expect_status :: "int \<Rightarrow> test_response \<Rightarrow> (err, test_response) res" where
  "expect_status status r =
     (if te_status r \<noteq> status
      then Fail (Text (''status = '' @ show_int (te_status r) @ '', want '' @ show_int status @ ''; body: '' @ te_body r))
      else Ok r)"

text \<open>\<open>unmarshal\<close> is \<open>json.Unmarshal\<close> into the wanted type.\<close>

definition response_json :: "(string \<Rightarrow> err + 'v) \<Rightarrow> test_response \<Rightarrow> (err, 'v) res" where
  "response_json unmarshal r =
     (case unmarshal (te_body r) of
        Inl e \<Rightarrow> Fail (Text (''decode body: '' @ error_text e @ ''; body: '' @ te_body r))
      | Inr v \<Rightarrow> Ok v)"

definition decode_response :: "(string \<Rightarrow> err + 'v) \<Rightarrow> int \<Rightarrow> test_response \<Rightarrow> (err, 'v) res" where
  "decode_response unmarshal status r = res_bind (expect_status status r) (response_json unmarshal)"

definition response_problem :: "(string \<Rightarrow> err + problem) \<Rightarrow> int \<Rightarrow> test_response \<Rightarrow> (err, problem) res" where
  "response_problem unmarshal status r =
     res_bind (expect_status status r) (\<lambda>_.
       let ct = header_get (te_header r) ''Content-Type'' in
       if \<not> has_prefix ct problem_media_type
       then Fail (Text (''Content-Type = '' @ go_quote ct @ '', want '' @ problem_media_type @ ''; body: '' @ te_body r))
       else
         res_bind (response_json unmarshal r) (\<lambda>p.
           if p_status p \<noteq> status
           then Fail (Text (''problem status = '' @ show_int (p_status p) @ '', want '' @ show_int status @ ''; body: '' @ te_body r))
           else Ok p))"

text \<open>The client \<open>Live\<close> polls with; \<open>get_status\<close> is a client's GET: the status, or a transport error.\<close>

definition probe :: http_client where
  "probe = new_http_client 1000000000"

definition live :: "(http_client \<Rightarrow> string \<Rightarrow> err + int) \<Rightarrow> string \<Rightarrow> bool" where
  "live get_status url =
     (case get_status probe (url @ health_path) of Inl e \<Rightarrow> False | Inr status \<Rightarrow> status = 200)"

section \<open>Properties\<close>

lemma plain_char_quote:
  assumes "visible c" "c \<noteq> CHR 0x22" "c \<noteq> backslash"
  shows "quote_chunk (Rune [c]) = [c]"
proof -
  have ne: "c \<noteq> d" if "\<not> visible d" for d using assms(1) that by blast
  have "c \<noteq> CHR 0x07" "c \<noteq> CHR 0x08" "c \<noteq> CHR 0x0C" "c \<noteq> CHR 0x0A" "c \<noteq> CHR 0x0D" "c \<noteq> CHR 0x09" "c \<noteq> CHR 0x0B"
    "c \<noteq> CHR 0x7F"
    by (rule ne, simp add: visible_def)+
  moreover have "\<not> of_char c < (0x20 :: nat)" using assms(1) by (simp add: visible_def)
  ultimately show ?thesis using assms(2,3) unfolding quote_chunk_def chunk.case list.case by (simp only: if_False simp_thms)
qed

lemma plain_quote:
  assumes "\<And>c. c \<in> set s \<Longrightarrow> visible c \<and> c \<noteq> CHR 0x22 \<and> c \<noteq> backslash"
  shows "go_quote s = entity_tag s"
proof -
  have ascii: "byte_in c 0 0x7F" if "visible c" for c using that by (simp add: byte_in_def visible_def)
  then have "list_all (\<lambda>c. byte_in c 0 0x7F) s" using assms unfolding list_all_iff by blast
  then have "utf8_chunks s = map (\<lambda>c. Rune [c]) s" by (rule utf8_chunks_ascii)
  moreover have "concat (map (\<lambda>c. quote_chunk (Rune [c])) s) = s"
    using assms
  proof (induction s)
    case (Cons c s)
    then have "quote_chunk (Rune [c]) = [c]" by (intro plain_char_quote) simp_all
    then show ?case using Cons by simp
  qed simp
  ultimately show ?thesis by (simp add: go_quote_def entity_tag_def comp_def)
qed

lemma show_int_plain: "c \<in> set (show_int n) \<Longrightarrow> is_digit c \<or> c = CHR ''-''"
  using show_nat_digits [of "nat n"] show_nat_digits [of "nat (- n)"]
  by (auto simp: show_int_def list_all_iff split: if_splits)

lemma digit_plain: "is_digit c \<or> c = CHR ''-'' \<Longrightarrow> visible c \<and> c \<noteq> CHR 0x22 \<and> c \<noteq> backslash"
proof -
  assume "is_digit c \<or> c = CHR ''-''"
  then have "45 \<le> (of_char c :: nat) \<and> of_char c \<le> (57 :: nat)" by (auto simp: is_digit_def)
  then show ?thesis by (auto simp: visible_def backslash_def)
qed

lemma integer_show_int: "integer (show_int n)"
proof (cases "n < 0")
  case True
  then show ?thesis using show_nat_digits [of "nat (- n)"] trim_prefix_append [of "''-''"] by (simp add: integer_def show_int_def)
next
  case False
  have d: "show_nat (nat n) \<noteq> []" "list_all is_digit (show_nat (nat n))" using show_nat_digits by blast+
  then have "hd (show_nat (nat n)) \<noteq> CHR ''-''" by (cases "show_nat (nat n)") auto
  then have "\<not> has_prefix (show_nat (nat n)) ''-''" using d by (cases "show_nat (nat n)") auto
  then show ?thesis using False d by (simp add: integer_def show_int_def trim_prefix_no)
qed

text \<open>
  The precondition a test sends is the one the server reads: for every 64-bit
  version, a negative one included, \<open>IfMatch\<close> of a request with the \<open>webtest.IfMatch\<close> header is that
  version.
\<close>

theorem test_if_match_roundtrip:
  assumes "int64 v"
  shows "if_match (r\<lparr>r_header := header_set (fst (test_if_match v)) (snd (test_if_match v)) h\<rparr>) = Ok v"
proof -
  have plain: "visible c \<and> c \<noteq> CHR 0x22 \<and> c \<noteq> backslash" if "c \<in> set (show_int v)" for c
    using digit_plain [OF show_int_plain [OF that]] .
  then have q: "go_quote (show_int v) = entity_tag (show_int v)" by (rule plain_quote)
  have "list_all visible (show_int v)" unfolding list_all_iff using plain by blast
  then have "trim_space (entity_tag (show_int v)) = entity_tag (show_int v)" by (rule trim_space_entity_tag)
  then show ?thesis
    unfolding if_match_Ok test_if_match_def fst_conv snd_conv q
    using integer_show_int [of v] parse_int_show_int [OF assms]
    by (auto simp: if_match_text_def header_values_def header_set_def header_get_def)
qed

theorem test_if_match_roundtrip_witness:
  "if_match (example_request\<lparr>r_header := header_set ''If-Match'' (snd (test_if_match (- 42))) (\<lambda>_. [])\<rparr>) = Ok (- 42)"
  using test_if_match_roundtrip [where v = "- 42" and r = example_request and h = "\<lambda>_. []"]
  by (simp add: test_if_match_def int64_def min_int_def max_int_def)



end
