(* ===== verification/Layers.thy ===== *)
theory Layers imports Observing begin

text \<open>
  The middlewares that bound or judge a request (\<open>middleware/bodylimit.go\<close>, \<open>timeout.go\<close>,
  \<open>maybe.go\<close>, \<open>headers.go\<close>, \<open>contenttype.go\<close>). A constructor takes the wiring's arguments and
  panics on a mistake; the handler it makes is the \<open>_serve\<close> definition beside it.
\<close>

section \<open>The body limit\<close>

text \<open>The body is replaced in the request itself, so every holder of the pointer reads the bounded one.\<close>

definition body_limit_serve :: "int \<Rightarrow> middleware" where
  "body_limit_serve n inner w a =
     go_seq (set_request a (\<lambda>r. r\<lparr>r_body := max_bytes_reader n (r_body r)\<rparr>)) (inner w a)"

definition body_limit :: "int \<Rightarrow> (err, middleware) res" where
  "body_limit n =
     (if n \<le> 0 then Panic ''middleware: BodyLimit requires a positive limit'' else Ok (body_limit_serve n))"

lemma max_bytes_reader_nested: "max_bytes_reader m (max_bytes_reader n b) = max_bytes_reader (min n m) b"
proof -
  consider "int (length (b_data b)) \<le> max n 0" | "max n 0 < int (length (b_data b))" by linarith
  then show ?thesis
  proof cases
    case 1
    then have b: "max_bytes_reader n b = b" by (rule max_bytes_reader_fits)
    show ?thesis
    proof (cases "n \<le> m")
      case True
      with 1 show ?thesis by (simp add: b min_def max_bytes_reader_fits [of b m])
    next
      case False
      then show ?thesis by (simp add: b min_def)
    qed
  next
    case 2
    then show ?thesis by (simp only: max_bytes_reader_over) (auto simp: max_bytes_reader_def min_def)
  qed
qed

lemma set_request_run: "go_seq (set_request a f) n s = n (s\<lparr>w_reqs := (w_reqs s)(a := f (w_reqs s a))\<rparr>)"
  by (simp add: set_request_def)

lemma body_limit_run:
  "body_limit_serve n inner w a s =
     inner w a (s\<lparr>w_reqs := (w_reqs s)(a := (w_reqs s a)\<lparr>r_body := max_bytes_reader n (r_body (w_reqs s a))\<rparr>)\<rparr>)"
  by (simp add: body_limit_serve_def set_request_run)

text \<open>
  Claim C32 (equivalence). Body limits compose to the tighter: two nested limits are one limit at
  their minimum; and \<open>DecodeJSON\<close> under a limit answers exactly as it would with the smaller of the two
  limits and no middleware, so an overflow names the tighter one.
\<close>

theorem body_limit_tighter:
  "body_limit_serve n (body_limit_serve m h) = body_limit_serve (min n m) h \<and>
   (\<exists>s1. body_limit_serve n h w a s = h w a s1 \<and>
      decode_json decode token (req a s1) m = decode_json decode token (req a s) (min n m) \<and>
      int (length (b_data (r_body (req a s1)))) \<le> max n 0)"
proof (intro conjI exI)
  show "body_limit_serve n (body_limit_serve m h) = body_limit_serve (min n m) h"
    by (simp add: fun_eq_iff body_limit_run max_bytes_reader_nested)
  let ?s1 = "s\<lparr>w_reqs := (w_reqs s)(a := (w_reqs s a)\<lparr>r_body := max_bytes_reader n (r_body (w_reqs s a))\<rparr>)\<rparr>"
  show "body_limit_serve n h w a s = h w a ?s1" by (rule body_limit_run)
  show "decode_json decode token (req a ?s1) m = decode_json decode token (req a s) (min n m)"
    by (simp add: req_def decode_json_def max_bytes_reader_nested)
  show "int (length (b_data (r_body (req a ?s1)))) \<le> max n 0"
    using max_bytes_reader_length [of n "r_body (w_reqs s a)"] by (simp add: req_def)
qed

section \<open>The timeout\<close>

text \<open>
  \<open>context.WithTimeout\<close>: a deadline \<open>d\<close> from now, unless the parent's is earlier. \<open>cancel\<close> ends the
  derived context; one that has ended already keeps its reason.
\<close>

definition with_timeout :: "int \<Rightarrow> int \<Rightarrow> ctx \<Rightarrow> ctx" where
  "with_timeout now d c =
     c\<lparr>cx_deadline := Some (case cx_deadline c of None \<Rightarrow> now + d | Some t \<Rightarrow> min t (now + d))\<rparr>"

definition cancel_ctx :: "ctx \<Rightarrow> ctx" where
  "cancel_ctx c = (case cx_err c of None \<Rightarrow> c\<lparr>cx_err := Some Canceled\<rparr> | Some _ \<Rightarrow> c)"

definition timeout_serve :: "int \<Rightarrow> middleware" where
  "timeout_serve d inner w a =
     go_bind (go_read (\<lambda>s. (req a s)\<lparr>r_ctx := with_timeout (w_clock s) d (r_ctx (req a s))\<rparr>)) (\<lambda>r.
       go_bind (new_request r) (\<lambda>b.
         go_defer (inner w b) (set_request b (\<lambda>r. r\<lparr>r_ctx := cancel_ctx (r_ctx r)\<rparr>))))"

definition timeout :: "int \<Rightarrow> (err, middleware) res" where
  "timeout d =
     (if d \<le> 0 then Panic ''middleware: Timeout requires a positive duration'' else Ok (timeout_serve d))"

lemma new_request_run:
  "go_bind (new_request r) f s = f (w_next_req s) (s\<lparr>w_reqs := (w_reqs s)(w_next_req s := r), w_next_req := Suc (w_next_req s)\<rparr>)"
  by (simp add: new_request_def go_bind_def)

lemma cancel_ctx_ended: "cx_err (cancel_ctx c) \<noteq> None"
  by (auto simp: cancel_ctx_def split: option.split)

lemma defer_cancel:
  "go_defer m (set_request b (\<lambda>r. r\<lparr>r_ctx := cancel_ctx (r_ctx r)\<rparr>)) s = (r, t) \<Longrightarrow>
     \<exists>u. m s = (r, u) \<and> t = u\<lparr>w_reqs := (w_reqs u)(b := (w_reqs u b)\<lparr>r_ctx := cancel_ctx (r_ctx (w_reqs u b))\<rparr>)\<rparr>"
  by (auto simp: go_defer_def set_request_def split: prod.splits)

text \<open>
  Claim C33 (functional). The handler under \<open>Timeout\<close> gets a request of its own, the same but for a
  deadline \<open>d\<close> from now or the caller's, whichever is earlier; no request already there changes; and
  however the handler ends, a panic included, its outcome is kept and its context has ended.
\<close>

theorem timeout_deadline:
  "\<exists>b s1 r t. timeout_serve d inner w a s = (r, t) \<and> fst (inner w b s1) = r \<and> b = w_next_req s \<and>
     req b s1 = (req a s)\<lparr>r_ctx := (r_ctx (req a s))\<lparr>cx_deadline := cx_deadline (r_ctx (req b s1))\<rparr>\<rparr> \<and>
     cx_deadline (r_ctx (req b s1)) =
       (case cx_deadline (r_ctx (req a s)) of
          Some limit \<Rightarrow> if limit < w_clock s + d then Some limit else Some (w_clock s + d)
        | None \<Rightarrow> Some (w_clock s + d)) \<and>
     (\<forall>a'. a' \<noteq> b \<longrightarrow> req a' s1 = req a' s) \<and> cx_err (r_ctx (req b t)) \<noteq> None"
proof -
  let ?b = "w_next_req s"
  let ?r = "(req a s)\<lparr>r_ctx := with_timeout (w_clock s) d (r_ctx (req a s))\<rparr>"
  let ?s1 = "s\<lparr>w_reqs := (w_reqs s)(?b := ?r), w_next_req := Suc ?b\<rparr>"
  obtain r t where run: "timeout_serve d inner w a s = (r, t)" by fastforce
  then have "go_defer (inner w ?b) (set_request ?b (\<lambda>r. r\<lparr>r_ctx := cancel_ctx (r_ctx r)\<rparr>)) ?s1 = (r, t)"
    by (simp add: timeout_serve_def new_request_run)
  from defer_cancel [OF this] obtain u where u: "inner w ?b ?s1 = (r, u)"
    "t = u\<lparr>w_reqs := (w_reqs u)(?b := (w_reqs u ?b)\<lparr>r_ctx := cancel_ctx (r_ctx (w_reqs u ?b))\<rparr>)\<rparr>" by blast
  show ?thesis
    using run u
    by (intro exI [of _ ?b] exI [of _ ?s1] exI [of _ r] exI [of _ t])
      (auto simp: req_def with_timeout_def cancel_ctx_ended split: option.split)
qed

theorem timeout_deadline_witness:
  "\<exists>b s1 r t. timeout_serve 5 (\<lambda>_ _. go_panic AbortHandler) (Base Conn) 0 example_world = (r, t) \<and> r = Panicked AbortHandler \<and>
     b = 1 \<and> cx_deadline (r_ctx (req b s1)) = Some 5 \<and> req 0 s1 = example_request \<and> cx_err (r_ctx (req b t)) \<noteq> None"
proof -
  from timeout_deadline [where inner = "\<lambda>_ _. go_panic AbortHandler" and d = 5 and w = "Base Conn" and a = 0 and s = example_world]
  obtain b s1 r t where run: "timeout_serve 5 (\<lambda>_ _. go_panic AbortHandler) (Base Conn) 0 example_world = (r, t)"
      "fst (go_panic AbortHandler s1 :: unit outcome \<times> world) = r" "b = w_next_req example_world"
    and deadline: "cx_deadline (r_ctx (req b s1)) =
       (case cx_deadline (r_ctx (req 0 example_world)) of
          Some limit \<Rightarrow> if limit < w_clock example_world + 5 then Some limit else Some (w_clock example_world + 5)
        | None \<Rightarrow> Some (w_clock example_world + 5))"
    and rest: "\<forall>a'. a' \<noteq> b \<longrightarrow> req a' s1 = req a' example_world" "cx_err (r_ctx (req b t)) \<noteq> None"
    by blast
  show ?thesis
    using run deadline rest
    by (intro exI [of _ b] exI [of _ s1] exI [of _ r] exI [of _ t])
      (auto simp: req_def example_world_def example_request_def)
qed

section \<open>Maybe\<close>

definition maybe_serve :: "middleware \<Rightarrow> (request \<Rightarrow> bool) \<Rightarrow> middleware" where
  "maybe_serve mw pred inner w a s = (if pred (req a s) then mw inner w a s else inner w a s)"

definition maybe :: "middleware option \<Rightarrow> (request \<Rightarrow> bool) option \<Rightarrow> (err, middleware) res" where
  "maybe mw pred =
     (case mw of
        None \<Rightarrow> Panic ''middleware: Maybe requires a middleware to apply''
      | Some mw \<Rightarrow>
          (case pred of
             None \<Rightarrow> Panic ''middleware: Maybe requires a predicate''
           | Some pred \<Rightarrow> Ok (maybe_serve mw pred)))"

definition not_probe :: "request \<Rightarrow> bool" where
  "not_probe r \<longleftrightarrow> r_path r \<noteq> health_path \<and> r_path r \<noteq> ready_path"

section \<open>Fixed headers\<close>

text \<open>
  The caller's map is an association list in the order the loop visits it, which Go leaves open;
  names are distinct as written, but two may be one canonical name.
\<close>

fun fixed_headers :: "string list \<Rightarrow> (string \<times> string) list \<Rightarrow> (err, (string \<times> string) list) res" where
  "fixed_headers seen [] = Ok []"
| "fixed_headers seen ((name, v) # entries) =
     (if name = [] then Panic ''middleware: Headers requires a name for every header''
      else
        let canonical = canonical_key name in
        if canonical \<in> set seen then Panic (''middleware: Headers has two entries for '' @ canonical)
        else res_bind (fixed_headers (canonical # seen) entries) (\<lambda>fixed. Ok ((canonical, v) # fixed)))"

definition set_fixed :: "(string \<times> string) list \<Rightarrow> header \<Rightarrow> header" where
  "set_fixed fixed h = fold (\<lambda>(name, v). header_set name v) fixed h"

definition headers_serve :: "(string \<times> string) list \<Rightarrow> middleware" where
  "headers_serve fixed inner w a = go_seq (writer_header w (set_fixed fixed)) (inner w a)"

definition headers :: "(string \<times> string) list \<Rightarrow> (err, middleware) res" where
  "headers entries = res_bind (fixed_headers [] entries) (\<lambda>fixed. Ok (headers_serve fixed))"

text \<open>A canonical name is its own canonical form.\<close>

lemma upper_lower_idem [simp]: "upper_ascii (upper_ascii c) = upper_ascii c" "lower_ascii (lower_ascii c) = lower_ascii c"
  by (auto simp: upper_ascii_def lower_ascii_def)

lemma canonical_parts_idem: "canonical_parts up (canonical_parts up k) = canonical_parts up k"
proof (induction up k rule: canonical_parts.induct)
  case (2 up c s)
  have "of_char (upper_ascii c) = (45 :: nat) \<longleftrightarrow> of_char c = (45 :: nat)"
    "of_char (lower_ascii c) = (45 :: nat) \<longleftrightarrow> of_char c = (45 :: nat)"
    by (auto simp: upper_ascii_def lower_ascii_def)
  then have "upper_ascii c = CHR ''-'' \<longleftrightarrow> c = CHR ''-''" "lower_ascii c = CHR ''-'' \<longleftrightarrow> c = CHR ''-''"
    using of_char_eq_iff [where 'a = nat, of _ "CHR ''-''"] by simp_all
  then show ?case using 2 by simp
qed simp

lemma token_letter: "(65 \<le> n \<and> n \<le> 90) \<or> (97 \<le> n \<and> n \<le> (122 :: nat)) \<Longrightarrow> token_byte (char_of n)"
  by (auto simp: token_byte_def)

lemma token_case: "token_byte c \<Longrightarrow> token_byte (upper_ascii c)" "token_byte c \<Longrightarrow> token_byte (lower_ascii c)"
  by (auto simp: upper_ascii_def lower_ascii_def intro!: token_letter)

lemma token_parts: "list_all token_byte k \<Longrightarrow> list_all token_byte (canonical_parts up k)"
  by (induction up k rule: canonical_parts.induct) (auto intro: token_case)

lemma canonical_key_idem [simp]: "canonical_key (canonical_key k) = canonical_key k"
  by (simp add: canonical_key_def token_parts canonical_parts_idem)

text \<open>The loop accepts exactly the lists of non-empty names with different canonical forms.\<close>

definition good_entries :: "(string \<times> string) list \<Rightarrow> bool" where
  "good_entries entries \<longleftrightarrow> (\<forall>e \<in> set entries. fst e \<noteq> []) \<and> distinct (map (canonical_key \<circ> fst) entries)"

lemma fixed_headers_eq:
  "if good_entries entries \<and> (\<forall>e \<in> set entries. canonical_key (fst e) \<notin> set seen)
   then fixed_headers seen entries = Ok (map (apfst canonical_key) entries)
   else is_panic (fixed_headers seen entries)"
proof (induction entries arbitrary: seen)
  case (Cons e entries)
  obtain name v where e: "e = (name, v)" by (cases e)
  show ?case
  proof (cases "name = [] \<or> canonical_key name \<in> set seen")
    case True
    then show ?thesis using e by (auto simp: Let_def good_entries_def)
  next
    case False
    have "good_entries (e # entries) \<and> (\<forall>e \<in> set (e # entries). canonical_key (fst e) \<notin> set seen) \<longleftrightarrow>
        good_entries entries \<and> (\<forall>e \<in> set entries. canonical_key (fst e) \<notin> set (canonical_key name # seen))"
      using False e by (force simp: good_entries_def)
    then show ?thesis
      using Cons.IH [of "canonical_key name # seen"] False e by (auto simp: Let_def res_simps split: if_splits)
  qed
qed (simp add: good_entries_def)

lemma headers_cases:
  "good_entries entries \<Longrightarrow> headers entries = Ok (headers_serve (map (apfst canonical_key) entries))"
  "\<not> good_entries entries \<Longrightarrow> is_panic (headers entries)"
  using fixed_headers_eq [of entries "[]"] by (simp_all add: headers_def res_simps)

lemma good_entries_perm: "mset es = mset es' \<Longrightarrow> good_entries es \<longleftrightarrow> good_entries es'"
  unfolding good_entries_def by (metis mset_eq_imp_distinct_iff mset_eq_setD mset_map)

text \<open>What the loop over the fixed headers leaves in the response's header.\<close>

lemma set_fixed_lookup:
  assumes "distinct (map fst fixed)" "\<forall>e \<in> set fixed. canonical_key (fst e) = fst e"
  shows "set_fixed fixed h = (\<lambda>k. case map_of fixed k of Some v \<Rightarrow> [v] | None \<Rightarrow> h k)"
  using assms
proof (induction fixed arbitrary: h)
  case (Cons e fixed)
  obtain n v where e: "e = (n, v)" by (cases e)
  have "n \<notin> fst ` set fixed" using Cons.prems(1) e by (auto simp: image_iff)
  then have "map_of fixed n = None" by (simp add: map_of_eq_None_iff)
  then show ?case
    using Cons e by (auto simp: set_fixed_def header_set_def fun_eq_iff split: option.split)
qed (simp add: set_fixed_def)

lemma good_entries_fixed:
  assumes "good_entries entries"
  shows "distinct (map fst (map (apfst canonical_key) entries))"
    "\<forall>e \<in> set (map (apfst canonical_key) entries). canonical_key (fst e) = fst e"
  using assms by (auto simp: good_entries_def comp_def)

text \<open>
  \<open>Headers\<close> does not depend on the order Go visits the map in: two orders of the
  same entries give the same middleware, or both panic. They panic exactly when a name is empty
  or two names have one canonical form; otherwise the handler runs with every entry's header set to
  its value alone and all others as they were.
\<close>

theorem headers_order_irrelevant:
  assumes "mset entries = mset entries'"
  shows "(\<forall>f. headers entries = Ok f \<longrightarrow> headers entries' = Ok f) \<and>
    (is_panic (headers entries) \<longleftrightarrow> is_panic (headers entries')) \<and>
    (is_panic (headers entries) \<longleftrightarrow>
       (\<exists>e \<in> set entries. fst e = []) \<or> \<not> distinct (map (canonical_key \<circ> fst) entries)) \<and>
    (\<forall>f. headers entries = Ok f \<longrightarrow> writer_base w s = Conn \<longrightarrow>
       f inner w a s = inner w a (s\<lparr>w_header := \<lambda>k.
         case map_of (map (apfst canonical_key) entries) k of Some v \<Rightarrow> [v] | None \<Rightarrow> w_header s k\<rparr>))"
proof (cases "good_entries entries")
  case True
  then have True': "good_entries entries'" using good_entries_perm [OF assms] by simp
  note fixed = good_entries_fixed [OF True] and fixed' = good_entries_fixed [OF True']
  have "map_of (map (apfst canonical_key) entries) = map_of (map (apfst canonical_key) entries')"
    using assms fixed(1) by (intro distinct_map_of_perm) simp_all
  then have set_fixed_eq: "set_fixed (map (apfst canonical_key) entries) = set_fixed (map (apfst canonical_key) entries')"
    by (intro ext) (simp only: set_fixed_lookup [OF fixed] set_fixed_lookup [OF fixed'])
  have same: "headers_serve (map (apfst canonical_key) entries) = headers_serve (map (apfst canonical_key) entries')"
    by (intro ext) (simp add: headers_serve_def set_fixed_eq)
  have run: "headers_serve (map (apfst canonical_key) entries) inner w a s =
      inner w a (s\<lparr>w_header := \<lambda>k. case map_of (map (apfst canonical_key) entries) k of Some v \<Rightarrow> [v] | None \<Rightarrow> w_header s k\<rparr>)"
    if "writer_base w s = Conn"
    using that by (simp add: headers_serve_def set_fixed_lookup [OF fixed] go_simps conn_steps(1))
  have ok: "(\<forall>e \<in> set entries. fst e \<noteq> []) \<and> distinct (map (canonical_key \<circ> fst) entries)"
    using True by (simp add: good_entries_def)
  show ?thesis
    using same run ok by (auto simp: headers_cases(1) [OF True] headers_cases(1) [OF True'])
next
  case False
  then have "is_panic (headers entries)" "is_panic (headers entries')"
    using good_entries_perm [OF assms] headers_cases(2) by blast+
  then show ?thesis using False by (auto simp: good_entries_def)
qed

theorem headers_order_irrelevant_witness:
  "\<exists>f. headers [(''x-frame-options'', ''DENY''), (''Vary'', ''Origin'')] = Ok f \<and>
     headers [(''Vary'', ''Origin''), (''x-frame-options'', ''DENY'')] = Ok f"
proof -
  have "headers [(''x-frame-options'', ''DENY''), (''Vary'', ''Origin'')] = Ok (headers_serve [(''X-Frame-Options'', ''DENY''), (''Vary'', ''Origin'')])"
  proof -
    have "canonical_key ''x-frame-options'' = ''X-Frame-Options''" "canonical_key ''Vary'' = ''Vary''" by code_simp+
    then show ?thesis by (simp add: headers_def Let_def)
  qed
  then show ?thesis
    using headers_order_irrelevant [of "[(''x-frame-options'', ''DENY''), (''Vary'', ''Origin'')]"
        "[(''Vary'', ''Origin''), (''x-frame-options'', ''DENY'')]"] by auto
qed

section \<open>The content type\<close>

text \<open>
  \<open>parse_media\<close> is \<open>mime.ParseMediaType\<close>: the type and its parameters, or an error. The allowed
  types are deduplicated in order; each must be a bare type/subtype.
\<close>

type_synonym media_parser = "string \<Rightarrow> err + (string \<times> (string \<times> string) list)"

definition bare_media :: "media_parser \<Rightarrow> string \<Rightarrow> string option" where
  "bare_media parse_media a =
     (case parse_media a of
        Inl e \<Rightarrow> None
      | Inr (mt, params) \<Rightarrow> if params \<noteq> [] \<or> CHR ''/'' \<notin> set mt then None else Some mt)"

fun allowed_types :: "media_parser \<Rightarrow> string list \<Rightarrow> string list \<Rightarrow> (err, string list) res" where
  "allowed_types parse_media types [] = Ok types"
| "allowed_types parse_media types (a # allowed) =
     (case bare_media parse_media a of
        None \<Rightarrow> Panic (''middleware: ContentType requires a bare type/subtype media type, got '' @ go_quote a)
      | Some mt \<Rightarrow> allowed_types parse_media (if mt \<in> set types then types else types @ [mt]) allowed)"

definition reject_type :: "writer \<Rightarrow> nat \<Rightarrow> string \<Rightarrow> string \<Rightarrow> unit go" where
  "reject_type w a why accepted =
     go_bind (write_problem w a 415 [] (why @ ''; accepted: '' @ accepted)) (\<lambda>_. go_return ())"

definition content_type_serve :: "media_parser \<Rightarrow> string list \<Rightarrow> middleware" where
  "content_type_serve parse_media types inner w a =
     go_bind (go_read (\<lambda>s. header_get (r_header (req a s)) ''Content-Type'')) (\<lambda>raw.
       let accepted = join types '', '' in
       if raw = [] then reject_type w a ''the request has no Content-Type header'' accepted
       else
         case parse_media raw of
           Inl e \<Rightarrow> reject_type w a ''the Content-Type header is not a media type'' accepted
         | Inr (mt, params) \<Rightarrow>
             if mt \<notin> set types then reject_type w a (''Content-Type '' @ mt @ '' is not accepted'') accepted
             else inner w a)"

definition content_type :: "media_parser \<Rightarrow> string list \<Rightarrow> (err, middleware) res" where
  "content_type parse_media allowed =
     (if allowed = [] then Panic ''middleware: ContentType requires at least one allowed media type''
      else res_bind (allowed_types parse_media [] allowed) (\<lambda>types. Ok (content_type_serve parse_media types)))"

lemma allowed_types_set:
  "allowed_types parse_media types allowed = Ok types' \<Longrightarrow>
     set types' = set types \<union> {mt. \<exists>a \<in> set allowed. bare_media parse_media a = Some mt} \<and>
     (\<forall>a \<in> set allowed. bare_media parse_media a \<noteq> None) \<and> (distinct types \<longrightarrow> distinct types')"
  by (induction parse_media types allowed rule: allowed_types.induct) (auto split: option.splits if_splits)

lemma bare_media_eq: "bare_media parse_media a = Some mt \<longleftrightarrow> parse_media a = Inr (mt, []) \<and> CHR ''/'' \<in> set mt"
  by (auto simp: bare_media_def split: sum.splits)

lemma content_type_serve_cases:
  fixes parse_media a s defines "raw \<equiv> header_get (r_header (req a s)) ''Content-Type''"
  shows "\<exists>mt params. raw \<noteq> [] \<and> parse_media raw = Inr (mt, params) \<and> mt \<in> set types \<Longrightarrow>
      content_type_serve parse_media types inner w a s = inner w a s"
    "\<not> (\<exists>mt params. raw \<noteq> [] \<and> parse_media raw = Inr (mt, params) \<and> mt \<in> set types) \<Longrightarrow>
      \<exists>why. content_type_serve parse_media types inner w a s = reject_type w a why (join types '', '') s"
  unfolding content_type_serve_def raw_def [symmetric] by (auto simp: Let_def raw_def [symmetric] split: sum.split)

lemma reject_type_sends:
  assumes "untouched w s"
  shows "\<exists>t. reject_type w a why accepted s = (Done (), t) \<and> map_option fst (w_sent t) = Some 415 \<and>
    header_get (conn_header t) ''Content-Type'' = problem_media_type \<and> same_outside s t"
proof -
  let ?p = "(status_problem 415)\<lparr>p_title := [], p_detail := why @ ''; accepted: '' @ accepted\<rparr>"
  from problem_sends [OF assms, of "apply_defaults (problem_for (req a s) ?p)" ?p a]
  have "sends w (write_problem w a 415 [] (why @ ''; accepted: '' @ accepted)) 415 problem_media_type
      (marshal_problem (apply_defaults (problem_for (req a s) ?p))) s"
    by (simp add: write_problem_def apply_defaults_def Let_def status_problem_def body_allowed_def)
  then show ?thesis by (auto simp: sends_def reject_type_def go_simps)
qed

text \<open>
  Claim C31 (safety). \<open>ContentType\<close> is a gate: the next handler runs, on the very request, exactly when the
  request's media type, parameters aside, is that of an allowed entry; any other request is answered
  with a 415 problem and never reaches it.
\<close>

theorem content_type_gate:
  assumes "content_type parse_media allowed = Ok f" "untouched w s"
  shows "if \<exists>mt params. header_get (r_header (req a s)) ''Content-Type'' \<noteq> [] \<and>
      parse_media (header_get (r_header (req a s)) ''Content-Type'') = Inr (mt, params) \<and>
      (\<exists>al \<in> set allowed. parse_media al = Inr (mt, []))
    then f inner w a s = inner w a s
    else \<exists>t. f inner w a s = (Done (), t) \<and> map_option fst (w_sent t) = Some 415 \<and>
      header_get (conn_header t) ''Content-Type'' = problem_media_type \<and> same_outside s t"
proof -
  from assms(1) obtain types where types: "allowed_types parse_media [] allowed = Ok types" "f = content_type_serve parse_media types"
    by (auto simp: content_type_def res_simps split: if_splits)
  let ?raw = "header_get (r_header (req a s)) ''Content-Type''"
  have allowed: "mt \<in> set types \<longleftrightarrow> (\<exists>al \<in> set allowed. parse_media al = Inr (mt, []))" for mt
    using allowed_types_set [OF types(1)] bare_media_eq [of parse_media] by fastforce
  show ?thesis
  proof (cases "\<exists>mt params. ?raw \<noteq> [] \<and> parse_media ?raw = Inr (mt, params) \<and> mt \<in> set types")
    case True
    then show ?thesis using content_type_serve_cases(1) [where s = s and a = a and inner = inner and w = w and types = types and parse_media = parse_media, OF True] types(2) by (simp only: allowed if_True)
  next
    case False
    then obtain why where "f inner w a s = reject_type w a why (join types '', '') s"
      using content_type_serve_cases(2) [where s = s and a = a and inner = inner and w = w and types = types and parse_media = parse_media, OF False] types(2) by blast
    then show ?thesis using False reject_type_sends [OF assms(2)] by (simp only: allowed if_False)
  qed
qed

theorem content_type_gate_witness:
  "\<exists>f t. content_type (\<lambda>v. Inr (v, [])) [''application/json''] = Ok f \<and>
     f (answering 204) (Base Conn) 0 example_world = (Done (), t) \<and> map_option fst (w_sent t) = Some 415"
proof -
  have f: "content_type (\<lambda>v. Inr (v, [])) [''application/json''] = Ok (content_type_serve (\<lambda>v. Inr (v, [])) [''application/json''])"
    by (simp add: content_type_def bare_media_def)
  have u: "untouched (Base Conn) example_world"
    by (simp add: untouched_def example_world_def writer_base_def declared_length_def header_get_def parse_int_def)
  have "header_get (r_header (req 0 example_world)) ''Content-Type'' = []"
    by (simp add: req_def example_world_def example_request_def header_get_def)
  then show ?thesis
    using content_type_gate [where inner = "answering 204" and a = 0, OF f u] f by auto
qed

end
