(* ===== verification/Request_Id.thy ===== *)
theory Request_Id imports Layers begin

text \<open>
  The correlation id (\<open>middleware/requestid.go\<close>): where it comes from, and that the response
  header, the request's context and every problem written for the request carry the same one.
\<close>

section \<open>Options\<close>

definition request_id_header :: string where "request_id_header = ''X-Request-Id''"

record request_id_config =
  ic_source :: "(request \<Rightarrow> string) option"
  ic_header :: string

type_synonym request_id_option = "request_id_config \<Rightarrow> request_id_config"

definition with_id_source :: "(request \<Rightarrow> string) option \<Rightarrow> (err, request_id_option) res" where
  "with_id_source fn =
     (case fn of
        None \<Rightarrow> Panic ''middleware: WithIDSource requires a non-nil source''
      | Some _ \<Rightarrow> Ok (\<lambda>c. c\<lparr>ic_source := fn\<rparr>))"

definition with_trusted_header :: "string \<Rightarrow> (err, request_id_option) res" where
  "with_trusted_header name =
     (if name = [] then Panic ''middleware: WithTrustedHeader requires a header name''
      else Ok (\<lambda>c. c\<lparr>ic_header := name\<rparr>))"

definition configure :: "request_id_option option list \<Rightarrow> request_id_config" where
  "configure opts =
     fold (\<lambda>opt c. case opt of None \<Rightarrow> c | Some f \<Rightarrow> f c) opts \<lparr>ic_source = None, ic_header = []\<rparr>"

section \<open>The id\<close>

definition valid_id :: "string \<Rightarrow> bool" where
  "valid_id rid \<longleftrightarrow>
     (if rid = [] \<or> 128 < length rid then False
      else list_all (\<lambda>c. \<not> ((of_char c :: nat) < 33 \<or> 126 < (of_char c :: nat))) rid)"

text \<open>The next bytes of \<open>crypto/rand\<close>, and their lower-case hex encoding.\<close>

definition rand_bytes :: "nat \<Rightarrow> world \<Rightarrow> string" where
  "rand_bytes n s = map (\<lambda>i. w_rand s (w_rand_pos s + i)) [0..<n]"

definition rand_read :: "nat \<Rightarrow> string go" where
  "rand_read n s = (Done (rand_bytes n s), s\<lparr>w_rand_pos := w_rand_pos s + n\<rparr>)"

definition hex_encode :: "string \<Rightarrow> string" where
  "hex_encode b = concat (map (\<lambda>c. [hex_digit (of_char c div 16), hex_digit (of_char c mod 16)]) b)"

definition generate_id :: "string go" where
  "generate_id = go_bind (rand_read 16) (\<lambda>b. go_return (hex_encode b))"

definition config_id :: "request_id_config \<Rightarrow> nat \<Rightarrow> string go" where
  "config_id c a s =
     (case (case ic_source c of None \<Rightarrow> [] | Some source \<Rightarrow> source (req a s)) of
        x # xs \<Rightarrow> (Done (x # xs), s)
      | [] \<Rightarrow>
          if ic_header c \<noteq> [] \<and> valid_id (header_get (r_header (req a s)) (ic_header c))
          then (Done (header_get (r_header (req a s)) (ic_header c)), s)
          else generate_id s)"

definition request_id_serve :: "request_id_config \<Rightarrow> middleware" where
  "request_id_serve c inner w a =
     go_bind (config_id c a) (\<lambda>rid.
       go_seq (writer_header w (header_set request_id_header rid))
         (go_bind (go_read (\<lambda>s. (req a s)\<lparr>r_ctx := with_request_id (r_ctx (req a s)) rid\<rparr>)) (\<lambda>r.
           go_bind (new_request r) (\<lambda>b. inner w b))))"

definition request_id :: "request_id_option option list \<Rightarrow> middleware" where
  "request_id opts = request_id_serve (configure opts)"

section \<open>Its shape\<close>

lemma hex_digit_visible: "n < 16 \<Longrightarrow> visible (hex_digit n)"
  by (auto simp: visible_def hex_digit_def)

lemma hex_encode_visible: "list_all visible (hex_encode b)"
  by (induction b) (auto simp: hex_encode_def hex_digit_visible less_mult_imp_div_less)

lemma length_hex_encode: "length (hex_encode b) = 2 * length b"
  by (induction b) (auto simp: hex_encode_def)

lemma valid_id_eq: "valid_id rid \<longleftrightarrow> rid \<noteq> [] \<and> length rid \<le> 128 \<and> list_all visible rid"
  by (auto simp: valid_id_def visible_def list_all_iff not_le)

lemma rand_bytes_simps [simp]: "length (rand_bytes n s) = n" "i < n \<Longrightarrow> rand_bytes n s ! i = w_rand s (w_rand_pos s + i)"
  by (simp_all add: rand_bytes_def)

lemma generate_id_eq: "generate_id s = (Done (hex_encode (rand_bytes 16 s)), s\<lparr>w_rand_pos := w_rand_pos s + 16\<rparr>)"
  by (simp add: generate_id_def rand_read_def go_bind_def)

lemma generate_id_run:
  "\<exists>rid. generate_id s = (Done rid, s\<lparr>w_rand_pos := w_rand_pos s + 16\<rparr>) \<and> length rid = 32 \<and> valid_id rid"
proof -
  have "length (hex_encode (rand_bytes 16 s)) = 32" by (simp add: length_hex_encode)
  then show ?thesis using hex_encode_visible [of "rand_bytes 16 s"] by (auto simp: generate_id_eq valid_id_eq)
qed

lemma hex_digit_inj: "m < 16 \<Longrightarrow> n < 16 \<Longrightarrow> hex_digit m = hex_digit n \<Longrightarrow> m = n"
  by (auto simp: hex_digit_def split: if_splits)

lemma hex_encode_inj: "hex_encode b = hex_encode b' \<Longrightarrow> b = b'"
proof (induction b arbitrary: b')
  case Nil
  then show ?case by (cases b') (simp_all add: hex_encode_def)
next
  case (Cons c b)
  obtain d b'' where b': "b' = d # b''" using Cons.prems by (cases b') (auto simp: hex_encode_def)
  have e: "hex_digit (of_char c div 16) = hex_digit (of_char d div 16)"
    "hex_digit (of_char c mod 16) = hex_digit (of_char d mod 16)" "hex_encode b = hex_encode b''"
    using Cons.prems b' by (simp_all add: hex_encode_def)
  have "(of_char c :: nat) div 16 = of_char d div 16" "(of_char c :: nat) mod 16 = of_char d mod 16"
    using e(1,2) by (auto intro: hex_digit_inj simp: less_mult_imp_div_less)
  then have "(of_char c :: nat) = of_char d" by (metis div_mult_mod_eq)
  then show ?case using Cons.IH [OF e(3)] b' by simp
qed

lemma request_id_run:
  assumes "writer_base w s = Conn" "config_id c a s = (Done rid, s0)" "s0 = s\<lparr>w_rand_pos := p\<rparr>"
  shows "request_id_serve c inner w a s =
    inner w (w_next_req s) (s0\<lparr>w_header := header_set request_id_header rid (w_header s),
      w_reqs := (w_reqs s)(w_next_req s := (req a s)\<lparr>r_ctx := with_request_id (r_ctx (req a s)) rid\<rparr>),
      w_next_req := Suc (w_next_req s)\<rparr>)"
proof -
  have "writer_base w s0 = Conn" using assms(1,3) by (cases w) (simp_all add: writer_base_def)
  then show ?thesis
    using assms(2,3) by (simp add: request_id_serve_def go_simps conn_steps(1) new_request_def req_def)
qed

text \<open>Which id a request gets, and what getting it changes.\<close>

lemma config_id_run:
  "\<exists>rid p. config_id c a s = (Done rid, s\<lparr>w_rand_pos := p\<rparr>) \<and> rid \<noteq> [] \<and>
     (case ic_source c of
        Some source \<Rightarrow> (if source (req a s) \<noteq> [] then rid = source (req a s) else valid_id rid)
      | None \<Rightarrow> valid_id rid) \<and>
     (ic_source c = None \<and> ic_header c \<noteq> [] \<and> valid_id (header_get (r_header (req a s)) (ic_header c)) \<longrightarrow>
        rid = header_get (r_header (req a s)) (ic_header c))"
proof (cases "case ic_source c of None \<Rightarrow> [] | Some source \<Rightarrow> source (req a s)")
  case (Cons x xs)
  then show ?thesis
    by (intro exI [of _ "x # xs"] exI [of _ "w_rand_pos s"]) (auto simp: config_id_def split: option.splits)
next
  case Nil
  show ?thesis
  proof (cases "ic_header c \<noteq> [] \<and> valid_id (header_get (r_header (req a s)) (ic_header c))")
    case True
    then show ?thesis
      using Nil
      by (intro exI [of _ "header_get (r_header (req a s)) (ic_header c)"] exI [of _ "w_rand_pos s"])
        (auto simp: config_id_def valid_id_eq split: option.splits)
  next
    case False
    obtain rid where rid: "generate_id s = (Done rid, s\<lparr>w_rand_pos := w_rand_pos s + 16\<rparr>)" "valid_id rid"
      using generate_id_run by blast
    have "config_id c a s = (Done rid, s\<lparr>w_rand_pos := w_rand_pos s + 16\<rparr>)"
      using Nil False rid(1) by (simp only: config_id_def list.case if_False)
    then show ?thesis using Nil False rid(2) by (intro exI) (auto simp: valid_id_eq split: option.splits)
  qed
qed

text \<open>
  Claim C30 (functional). Under \<open>RequestID\<close> the handler gets a request of its own, and one non-empty id is in
  three places before it runs: the request's context, the response header, and so every problem
  written for that request. The id is the source's when the source gives one; otherwise it is 1 to
  128 visible characters, and without a source a valid trusted header's value is taken as it is.
\<close>

theorem request_id_everywhere:
  assumes "writer_base w s = Conn"
  shows "\<exists>rid b s1. request_id_serve c inner w a s = inner w b s1 \<and> b = w_next_req s \<and> rid \<noteq> [] \<and>
    req b s1 = (req a s)\<lparr>r_ctx := with_request_id (r_ctx (req a s)) rid\<rparr> \<and>
    header_get (w_header s1) ''X-Request-Id'' = rid \<and>
    map_of (p_extras (problem_for (req b s1) p)) ''request_id'' = Some (JStr rid) \<and>
    (case ic_source c of
       Some source \<Rightarrow> (if source (req a s) \<noteq> [] then rid = source (req a s) else valid_id rid)
     | None \<Rightarrow> valid_id rid \<and>
         (ic_header c \<noteq> [] \<and> valid_id (header_get (r_header (req a s)) (ic_header c)) \<longrightarrow>
            rid = header_get (r_header (req a s)) (ic_header c)))"
proof -
  obtain rid p' where rid: "config_id c a s = (Done rid, s\<lparr>w_rand_pos := p'\<rparr>)" "rid \<noteq> []"
    "case ic_source c of
       Some source \<Rightarrow> (if source (req a s) \<noteq> [] then rid = source (req a s) else valid_id rid)
     | None \<Rightarrow> valid_id rid"
    "ic_source c = None \<and> ic_header c \<noteq> [] \<and> valid_id (header_get (r_header (req a s)) (ic_header c)) \<longrightarrow>
       rid = header_get (r_header (req a s)) (ic_header c)"
    using config_id_run [of c a s] by blast
  note run = request_id_run [where inner = inner, OF assms rid(1) refl]
  have extras: "map_of (p_extras (problem_for r p)) ''request_id'' = Some (JStr rid)"
    if "r_ctx r = with_request_id cx rid" for r cx
    using that rid(2)
    by (simp add: problem_for_def with_request_id_def request_id_from_def request_id_member_def Let_def)
  show ?thesis
    by (intro exI conjI, rule run)
      (use rid in \<open>auto simp: req_def request_id_header_def intro!: extras split: option.splits\<close>)
qed

theorem request_id_everywhere_witness:
  "\<exists>rid s1. request_id [] (answering 204) (Base Conn) 0 example_world = answering 204 (Base Conn) 1 s1 \<and>
     valid_id rid \<and> header_get (w_header s1) ''X-Request-Id'' = rid"
proof -
  have base: "writer_base (Base Conn) example_world = Conn" by (simp add: writer_base_def)
  have c: "request_id [] = request_id_serve \<lparr>ic_source = None, ic_header = []\<rparr>" by (simp add: request_id_def configure_def)
  from request_id_everywhere [where inner = "answering 204" and a = 0 and c = "\<lparr>ic_source = None, ic_header = []\<rparr>", OF base]
  show ?thesis by (auto simp: c example_world_def)
qed

text \<open>Different random bytes give different ids.\<close>

lemma generated_ids_differ:
  assumes "generate_id s = (Done rid, s')" "generate_id t = (Done rid, t')" "i < 16"
  shows "w_rand s (w_rand_pos s + i) = w_rand t (w_rand_pos t + i)"
proof -
  have "hex_encode (rand_bytes 16 s) = hex_encode (rand_bytes 16 t)" using assms(1,2) by (simp add: generate_id_eq)
  then have "rand_bytes 16 s = rand_bytes 16 t" by (rule hex_encode_inj)
  then have "rand_bytes 16 s ! i = rand_bytes 16 t ! i" by simp
  then show ?thesis using assms(3) by simp
qed

end
