(* ===== verification/Config.thy ===== *)
theory Config imports Errors begin

text \<open>
  The server's configuration (\<open>config.go\<close>): defaults, overlay, environment overrides, validation,
  and the address it yields. A pointer field is an option, \<open>None\<close> for nil. Durations are in
  nanoseconds. What \<open>go-core\<close>'s config package and the environment contribute is a parameter.
\<close>

section \<open>Addresses\<close>

text \<open>\<open>net.JoinHostPort\<close> and \<open>net.SplitHostPort\<close>; the latter's error is \<open>None\<close>.\<close>

definition join_host_port :: "string \<Rightarrow> string \<Rightarrow> string" where
  "join_host_port host port =
     (if CHR '':'' \<in> set host then ''['' @ host @ '']:'' @ port else host @ '':'' @ port)"

definition last_index_byte :: "string \<Rightarrow> char \<Rightarrow> nat option" where
  "last_index_byte s c = map_option (\<lambda>i. length s - 1 - i) (index_byte (rev s) c)"

definition split_host_port :: "string \<Rightarrow> (string \<times> string) option" where
  "split_host_port hp =
     (case last_index_byte hp CHR '':'' of
        None \<Rightarrow> None
      | Some i \<Rightarrow>
          (case (if hd hp = CHR ''[''
                 then (case index_byte hp CHR '']'' of
                         None \<Rightarrow> None
                       | Some e \<Rightarrow> if e + 1 = i then Some (take (e - 1) (drop 1 hp), 1, e + 1) else None)
                 else if CHR '':'' \<in> set (take i hp) then None else Some (take i hp, 0, 0)) of
             None \<Rightarrow> None
           | Some (host, j, k) \<Rightarrow>
               if CHR ''['' \<in> set (drop j hp) \<or> CHR '']'' \<in> set (drop k hp) then None
               else Some (host, drop (i + 1) hp)))"

lemma last_index_byte_append: "c \<notin> set t \<Longrightarrow> last_index_byte (s @ c # t) c = Some (length s)"
  using index_byte_append [of c "rev t" "rev s"] by (simp add: last_index_byte_def)

text \<open>An address without brackets in it comes apart as it was put together.\<close>

lemma split_join_host_port:
  assumes "CHR ''['' \<notin> set host" "CHR '']'' \<notin> set host"
    "CHR ''['' \<notin> set port" "CHR '']'' \<notin> set port" "CHR '':'' \<notin> set port"
  shows "split_host_port (join_host_port host port) = Some (host, port)"
proof (cases "CHR '':'' \<in> set host")
  case True
  let ?hp = "''['' @ host @ '']:'' @ port"
  have "last_index_byte ?hp CHR '':'' = Some (length host + 2)"
    using last_index_byte_append [OF assms(5), of "''['' @ host @ '']''"] by simp
  moreover have "index_byte ?hp CHR '']'' = Some (length host + 1)"
    using index_byte_append [of "CHR '']''" "''['' @ host" "'':'' @ port"] assms(2) by simp
  ultimately show ?thesis using True assms by (simp add: join_host_port_def split_host_port_def)
next
  case False
  have i: "last_index_byte (host @ '':'' @ port) CHR '':'' = Some (length host)"
    using last_index_byte_append [OF assms(5), of host] by simp
  have "hd (host @ '':'' @ port) \<noteq> CHR ''[''" using assms(1) by (cases host) auto
  then show ?thesis using False i assms by (simp add: join_host_port_def split_host_port_def)
qed

section \<open>The configuration\<close>

text \<open>
  \<open>go-core\<close> and the environment: \<open>config.EnvName\<close>, \<open>os.Getenv\<close>, \<open>config.SetFromEnv\<close> on a numeric
  field with a parser, \<open>config.SetDurationFromEnv\<close>, and the text of a \<open>config.Duration\<close>.
\<close>

record env_api =
  ea_name :: "string \<Rightarrow> string \<Rightarrow> string list \<Rightarrow> string"
  ea_getenv :: "string \<Rightarrow> string"
  ea_set :: "int option \<Rightarrow> string \<Rightarrow> (string \<Rightarrow> int option) \<Rightarrow> err + int option"
  ea_set_duration :: "int option \<Rightarrow> string \<Rightarrow> err + int option"
  ea_duration_text :: "int \<Rightarrow> string"

record env_names =
  en_host :: string
  en_port :: string
  en_read :: string
  en_read_header :: string
  en_write :: string
  en_idle :: string
  en_rate :: string

record config =
  cf_host :: string
  cf_port :: "int option"
  cf_read :: "int option"
  cf_read_header :: "int option"
  cf_write :: "int option"
  cf_idle :: "int option"
  cf_max_header :: "int option"
  cf_rate :: "int option"
  cf_env :: env_names

definition one_second :: int where "one_second = 1000000000"

definition new_env :: "env_api \<Rightarrow> string \<Rightarrow> string \<Rightarrow> env_names" where
  "new_env api pre block =
     \<lparr>en_host = ea_name api pre block [''host''], en_port = ea_name api pre block [''port''],
      en_read = ea_name api pre block [''read'', ''timeout''],
      en_read_header = ea_name api pre block [''read'', ''header'', ''timeout''],
      en_write = ea_name api pre block [''write'', ''timeout''],
      en_idle = ea_name api pre block [''idle'', ''timeout''],
      en_rate = ea_name api pre block [''transfer'', ''rate'']\<rparr>"

definition config_addr :: "config \<Rightarrow> string" where
  "config_addr c = join_host_port (cf_host c) (show_int (case cf_port c of None \<Rightarrow> 0 | Some p \<Rightarrow> p))"

text \<open>\<open>if src.X != nil { c.X = src.X }\<close>\<close>

definition overlay :: "int option \<Rightarrow> int option \<Rightarrow> int option" where
  "overlay old new = (if new \<noteq> None then new else old)"

definition config_merge :: "config \<Rightarrow> config \<Rightarrow> config" where
  "config_merge c src =
     c\<lparr>cf_host := (if cf_host src \<noteq> [] then cf_host src else cf_host c),
       cf_port := overlay (cf_port c) (cf_port src),
       cf_read := overlay (cf_read c) (cf_read src),
       cf_read_header := overlay (cf_read_header c) (cf_read_header src),
       cf_write := overlay (cf_write c) (cf_write src),
       cf_idle := overlay (cf_idle c) (cf_idle src),
       cf_max_header := overlay (cf_max_header c) (cf_max_header src),
       cf_rate := overlay (cf_rate c) (cf_rate src)\<rparr>"

definition or_int :: "int option \<Rightarrow> int \<Rightarrow> int option" where
  "or_int v d = (if v = None then Some d else v)"

definition apply_config_defaults :: "config \<Rightarrow> config" where
  "apply_config_defaults c =
     c\<lparr>cf_host := (if cf_host c = [] then ''0.0.0.0'' else cf_host c),
       cf_port := or_int (cf_port c) 8080,
       cf_read := or_int (cf_read c) (30 * one_second),
       cf_read_header := or_int (cf_read_header c) (5 * one_second),
       cf_write := or_int (cf_write c) (30 * one_second),
       cf_idle := or_int (cf_idle c) (120 * one_second),
       cf_rate := or_int (cf_rate c) 65536\<rparr>"

text \<open>
  One override: the field set from its variable, or the error, on which the rest is not applied.
  What was set before the error stays set.
\<close>

type_synonym 'c overriding = "'c \<Rightarrow> err option \<times> 'c"

definition override ::
  "('c \<Rightarrow> int option) \<Rightarrow> (int option \<Rightarrow> 'c \<Rightarrow> 'c) \<Rightarrow> (int option \<Rightarrow> err + int option) \<Rightarrow> 'c overriding" where
  "override get put from_env c =
     (case from_env (get c) of Inl e \<Rightarrow> (Some e, c) | Inr v \<Rightarrow> (None, put v c))"

fun overrides :: "'c overriding list \<Rightarrow> 'c overriding" where
  "overrides [] c = (None, c)"
| "overrides (f # fs) c = (case f c of (Some e, c') \<Rightarrow> (Some e, c') | (None, c') \<Rightarrow> overrides fs c')"

definition config_overrides :: "env_api \<Rightarrow> env_names \<Rightarrow> config overriding list" where
  "config_overrides api names =
     [override cf_port (\<lambda>v c. c\<lparr>cf_port := v\<rparr>) (\<lambda>v. ea_set api v (en_port names) parse_int),
      override cf_read (\<lambda>v c. c\<lparr>cf_read := v\<rparr>) (\<lambda>v. ea_set_duration api v (en_read names)),
      override cf_read_header (\<lambda>v c. c\<lparr>cf_read_header := v\<rparr>) (\<lambda>v. ea_set_duration api v (en_read_header names)),
      override cf_write (\<lambda>v c. c\<lparr>cf_write := v\<rparr>) (\<lambda>v. ea_set_duration api v (en_write names)),
      override cf_idle (\<lambda>v c. c\<lparr>cf_idle := v\<rparr>) (\<lambda>v. ea_set_duration api v (en_idle names)),
      override cf_rate (\<lambda>v c. c\<lparr>cf_rate := v\<rparr>) (\<lambda>v. ea_set api v (en_rate names) parse_int)]"

definition apply_env :: "env_api \<Rightarrow> config overriding" where
  "apply_env api c =
     (let v = ea_getenv api (en_host (cf_env c));
          c = (if v \<noteq> [] then c\<lparr>cf_host := v\<rparr> else c)
      in overrides (config_overrides api (cf_env c)) c)"

text \<open>A check dereferences its field, which panics on nil.\<close>

definition check_field :: "int option \<Rightarrow> (int \<Rightarrow> bool) \<Rightarrow> (int \<Rightarrow> string) \<Rightarrow> (err, unit) res" where
  "check_field v bad message =
     (case v of
        None \<Rightarrow> Panic ''runtime error: invalid memory address or nil pointer dereference''
      | Some n \<Rightarrow> if bad n then Fail (Text (message n)) else Ok ())"

fun checks_all :: "(err, unit) res list \<Rightarrow> (err, unit) res" where
  "checks_all [] = Ok ()"
| "checks_all (r # rs) = res_bind r (\<lambda>_. checks_all rs)"

definition validate :: "env_api \<Rightarrow> config \<Rightarrow> (err, unit) res" where
  "validate api c =
     checks_all
       [check_field (cf_port c) (\<lambda>n. n < 0 \<or> 65535 < n) (\<lambda>n. ''invalid port: '' @ show_int n),
        check_field (cf_read c) (\<lambda>n. n < 0) (\<lambda>n. ''invalid read_timeout: '' @ ea_duration_text api n),
        check_field (cf_read_header c) (\<lambda>n. n < 0) (\<lambda>n. ''invalid read_header_timeout: '' @ ea_duration_text api n),
        check_field (cf_write c) (\<lambda>n. n < 0) (\<lambda>n. ''invalid write_timeout: '' @ ea_duration_text api n),
        check_field (cf_idle c) (\<lambda>n. n < 0) (\<lambda>n. ''invalid idle_timeout: '' @ ea_duration_text api n),
        (if cf_max_header c = None then Ok ()
         else check_field (cf_max_header c) (\<lambda>n. n < 0) (\<lambda>n. ''invalid max_header_bytes: '' @ show_int n)),
        check_field (cf_rate c) (\<lambda>n. n \<le> 0) (\<lambda>n. ''invalid transfer_rate: '' @ show_int n)]"

definition finalize_block :: "env_api \<Rightarrow> string \<Rightarrow> string \<Rightarrow> config \<Rightarrow> (err, unit) res \<times> config" where
  "finalize_block api pre block c =
     (let c = apply_config_defaults (c\<lparr>cf_env := new_env api pre block\<rparr>)
      in case apply_env api c of
           (Some e, c) \<Rightarrow> (Fail e, c)
         | (None, c) \<Rightarrow> (validate api c, c))"

definition finalize :: "env_api \<Rightarrow> string \<Rightarrow> config \<Rightarrow> (err, unit) res \<times> config" where
  "finalize api pre c = finalize_block api pre ''server'' c"

definition finalized :: "config \<Rightarrow> bool" where
  "finalized c \<longleftrightarrow>
     cf_port c \<noteq> None \<and> cf_read c \<noteq> None \<and> cf_read_header c \<noteq> None \<and> cf_write c \<noteq> None \<and>
     cf_idle c \<noteq> None \<and> cf_rate c \<noteq> None"

section \<open>Merging\<close>

lemma overlay_laws [simp]:
  "overlay v None = v" "overlay v v = v" "overlay (overlay u v) x = overlay u (overlay v x)" "overlay v (Some n) = Some n"
  by (auto simp: overlay_def)

lemma or_int_overlay: "or_int v d = overlay (Some d) v"
  by (simp add: or_int_def overlay_def)

text \<open>
  \<open>Merge\<close> is an overlay: layers of files may be merged in any grouping, a layer
  merged twice counts once, one that sets nothing changes nothing, and a set field of the last
  layer wins. The defaults are an overlay too, beneath every layer.
\<close>

theorem config_merge_overlay:
  "config_merge (config_merge a b) c = config_merge a (config_merge b c) \<and>
   config_merge a a = a \<and> config_merge (config_merge a b) b = config_merge a b \<and>
   (cf_host b = [] \<and> cf_port b = None \<and> cf_read b = None \<and> cf_read_header b = None \<and> cf_write b = None \<and>
      cf_idle b = None \<and> cf_max_header b = None \<and> cf_rate b = None \<longrightarrow> config_merge a b = a) \<and>
   (cf_port b \<noteq> None \<longrightarrow> cf_port (config_merge a b) = cf_port b) \<and>
   apply_config_defaults (config_merge a b) = config_merge (apply_config_defaults a) b"
  by (simp add: config_merge_def apply_config_defaults_def or_int_overlay) (auto simp: overlay_def)

theorem config_merge_overlay_witness:
  "\<exists>a b. config_merge a b = a \<and> cf_port (config_merge a (b\<lparr>cf_port := Some 9000\<rparr>)) = Some 9000"
proof -
  define b where "b = \<lparr>cf_host = [], cf_port = None, cf_read = None, cf_read_header = None, cf_write = None, cf_idle = None,
    cf_max_header = None, cf_rate = None, cf_env = \<lparr>en_host = [], en_port = [], en_read = [], en_read_header = [],
    en_write = [], en_idle = [], en_rate = []\<rparr>\<rparr>"
  have "config_merge b b = b" using config_merge_overlay [of b b b] by (simp add: b_def)
  moreover have "cf_port (config_merge b (b\<lparr>cf_port := Some 9000\<rparr>)) = Some 9000"
    using config_merge_overlay [of b "b\<lparr>cf_port := Some 9000\<rparr>" b] by (auto simp: b_def)
  ultimately show ?thesis by blast
qed

section \<open>Finalizing\<close>

text \<open>
  What the overrides rely on \<open>go-core\<close> for. An empty variable leaves a field alone; a value that parses
  sets it; one that does not is an error. \<open>dp\<close> parses a duration.
\<close>

definition env_overrides :: "env_api \<Rightarrow> (string \<Rightarrow> int option) \<Rightarrow> bool" where
  "env_overrides api dp \<longleftrightarrow>
     (\<forall>v n p. ea_getenv api n = [] \<longrightarrow> ea_set api v n p = Inr v \<and> ea_set_duration api v n = Inr v) \<and>
     (\<forall>v n p. ea_getenv api n \<noteq> [] \<longrightarrow>
        (case p (ea_getenv api n) of Some x \<Rightarrow> ea_set api v n p = Inr (Some x) | None \<Rightarrow> isl (ea_set api v n p)) \<and>
        (case dp (ea_getenv api n) of Some x \<Rightarrow> ea_set_duration api v n = Inr (Some x) | None \<Rightarrow> isl (ea_set_duration api v n)))"

text \<open>The value a field ends with: the variable's when it is set, else the file's, else the default.\<close>

definition effective :: "(string \<Rightarrow> int option) \<Rightarrow> string \<Rightarrow> int option \<Rightarrow> int \<Rightarrow> int option" where
  "effective parse value field d =
     (if value \<noteq> [] then parse value else if field \<noteq> None then field else Some d)"

lemma env_overrides_set:
  assumes "env_overrides api dp"
  shows "ea_set api v n p = Inr v' \<longleftrightarrow>
      (if ea_getenv api n = [] then v' = v else p (ea_getenv api n) \<noteq> None \<and> v' = p (ea_getenv api n))"
    and "ea_set_duration api v n = Inr v' \<longleftrightarrow>
      (if ea_getenv api n = [] then v' = v else dp (ea_getenv api n) \<noteq> None \<and> v' = dp (ea_getenv api n))"
proof -
  from assms have law: "ea_getenv api n = [] \<Longrightarrow> ea_set api v n p = Inr v \<and> ea_set_duration api v n = Inr v"
    "ea_getenv api n \<noteq> [] \<Longrightarrow>
       (case p (ea_getenv api n) of Some x \<Rightarrow> ea_set api v n p = Inr (Some x) | None \<Rightarrow> isl (ea_set api v n p)) \<and>
       (case dp (ea_getenv api n) of Some x \<Rightarrow> ea_set_duration api v n = Inr (Some x) | None \<Rightarrow> isl (ea_set_duration api v n))"
    by (simp_all add: env_overrides_def)
  show "ea_set api v n p = Inr v' \<longleftrightarrow>
      (if ea_getenv api n = [] then v' = v else p (ea_getenv api n) \<noteq> None \<and> v' = p (ea_getenv api n))"
    using law by (cases "p (ea_getenv api n)"; cases "ea_getenv api n = []") auto
  show "ea_set_duration api v n = Inr v' \<longleftrightarrow>
      (if ea_getenv api n = [] then v' = v else dp (ea_getenv api n) \<noteq> None \<and> v' = dp (ea_getenv api n))"
    using law by (cases "dp (ea_getenv api n)"; cases "ea_getenv api n = []") auto
qed

lemma override_Done:
  "override get put from_env c = (None, c') \<longleftrightarrow> (\<exists>v. from_env (get c) = Inr v \<and> c' = put v c)"
  by (auto simp: override_def split: sum.split)

lemma overrides_Done:
  "overrides (f # fs) c = (None, c') \<longleftrightarrow> (\<exists>c1. f c = (None, c1) \<and> overrides fs c1 = (None, c'))"
  by (auto split: prod.split option.split)

lemmas overrides_simps = overrides_Done override_Done overrides.simps(1)

text \<open>The whole of \<open>applyEnv\<close> when no override fails, field by field.\<close>

lemma apply_env_Done:
  "apply_env api c = (None, c') \<longleftrightarrow>
     (\<exists>port read rh write idle rate.
        ea_set api (cf_port c) (en_port (cf_env c)) parse_int = Inr port \<and>
        ea_set_duration api (cf_read c) (en_read (cf_env c)) = Inr read \<and>
        ea_set_duration api (cf_read_header c) (en_read_header (cf_env c)) = Inr rh \<and>
        ea_set_duration api (cf_write c) (en_write (cf_env c)) = Inr write \<and>
        ea_set_duration api (cf_idle c) (en_idle (cf_env c)) = Inr idle \<and>
        ea_set api (cf_rate c) (en_rate (cf_env c)) parse_int = Inr rate \<and>
        c' = c\<lparr>cf_host := (if ea_getenv api (en_host (cf_env c)) \<noteq> [] then ea_getenv api (en_host (cf_env c)) else cf_host c),
               cf_port := port, cf_read := read, cf_read_header := rh, cf_write := write, cf_idle := idle, cf_rate := rate\<rparr>)"
  by (auto simp: apply_env_def config_overrides_def overrides_simps Let_def simp del: overrides.simps(2))

lemma check_field_Ok: "check_field v bad m = Ok () \<longleftrightarrow> (\<exists>n. v = Some n \<and> \<not> bad n)"
  by (auto simp: check_field_def split: option.split)

lemma check_field_panic: "is_panic (check_field v bad m) \<longleftrightarrow> v = None"
  by (auto simp: check_field_def split: option.split)

lemma checks_all_Ok: "checks_all (r # rs) = Ok () \<longleftrightarrow> r = Ok () \<and> checks_all rs = Ok ()"
  by (auto simp: res_simps)

text \<open>A configuration every check accepts.\<close>

definition valid_config :: "config \<Rightarrow> bool" where
  "valid_config c \<longleftrightarrow>
     (\<exists>port. cf_port c = Some port \<and> 0 \<le> port \<and> port \<le> 65535) \<and>
     (\<exists>d. cf_read c = Some d \<and> 0 \<le> d) \<and> (\<exists>d. cf_read_header c = Some d \<and> 0 \<le> d) \<and>
     (\<exists>d. cf_write c = Some d \<and> 0 \<le> d) \<and> (\<exists>d. cf_idle c = Some d \<and> 0 \<le> d) \<and>
     (\<forall>n. cf_max_header c = Some n \<longrightarrow> 0 \<le> n) \<and> (\<exists>n. cf_rate c = Some n \<and> 0 < n)"

lemma validate_Ok: "validate api c = Ok () \<longleftrightarrow> valid_config c"
  by (auto simp: validate_def checks_all_Ok check_field_Ok valid_config_def not_less not_le simp del: checks_all.simps(2))

lemma valid_finalized: "valid_config c \<Longrightarrow> finalized c"
  by (auto simp: valid_config_def finalized_def)

lemma validate_panic: "is_panic (validate api c) \<Longrightarrow> \<not> finalized c"
  by (auto simp: validate_def finalized_def res_simps check_field_panic split: if_splits)

lemma finalize_block_Ok:
  "finalize_block api pre block c = (Ok (), c') \<longleftrightarrow>
     apply_env api (apply_config_defaults (c\<lparr>cf_env := new_env api pre block\<rparr>)) = (None, c') \<and> valid_config c'"
  by (auto simp: finalize_block_def Let_def validate_Ok split: prod.split option.split)

text \<open>An environment for the witnesses: names joined with \<open>_\<close>, durations in nanoseconds.\<close>

definition example_api :: "(string \<Rightarrow> string) \<Rightarrow> env_api" where
  "example_api getenv =
     \<lparr>ea_name = (\<lambda>pre block parts. join (pre # block # parts) ''_''), ea_getenv = getenv,
      ea_set = (\<lambda>v n p. if getenv n = [] then Inr v
        else (case p (getenv n) of Some x \<Rightarrow> Inr (Some x) | None \<Rightarrow> Inl (Text (''invalid '' @ n)))),
      ea_set_duration = (\<lambda>v n. if getenv n = [] then Inr v
        else (case parse_int (getenv n) of Some x \<Rightarrow> Inr (Some x) | None \<Rightarrow> Inl (Text (''invalid '' @ n)))),
      ea_duration_text = show_int\<rparr>"

lemma example_api_overrides: "env_overrides (example_api getenv) parse_int"
  by (auto simp: env_overrides_def example_api_def split: option.split)

definition unset_config :: config where
  "unset_config =
     \<lparr>cf_host = [], cf_port = None, cf_read = None, cf_read_header = None, cf_write = None, cf_idle = None,
      cf_max_header = None, cf_rate = None, cf_env = \<lparr>en_host = [], en_port = [], en_read = [], en_read_header = [],
      en_write = [], en_idle = [], en_rate = []\<rparr>\<rparr>"

text \<open>\<open>Finalize\<close> on a configuration that sets nothing, with one variable in the environment.\<close>

definition example_env :: "string \<Rightarrow> string" where
  "example_env n = (if n = ''app_server_port'' then ''9000'' else [])"

lemma example_finalize:
  "finalize_block (example_api example_env) ''app'' ''server'' (unset_config\<lparr>cf_read := Some 0\<rparr>) =
     (Ok (), snd (finalize_block (example_api example_env) ''app'' ''server'' (unset_config\<lparr>cf_read := Some 0\<rparr>)))"
proof -
  have "parse_int ''9000'' = Some 9000" by code_simp
  then show ?thesis
    by (simp add: finalize_block_def apply_env_def config_overrides_def override_def example_api_def example_env_def
        new_env_def unset_config_def apply_config_defaults_def or_int_def validate_def check_field_def one_second_def)
qed

lemma effective_set:
  assumes "env_overrides api dp"
  shows "ea_set api (or_int v d) n p = Inr v' \<Longrightarrow> v' = effective p (ea_getenv api n) v d"
    and "ea_set_duration api (or_int v d) n = Inr v' \<Longrightarrow> v' = effective dp (ea_getenv api n) v d"
  by (auto simp: env_overrides_set [OF assms] effective_def or_int_def split: if_splits)

text \<open>
  Claim C16 (functional). After a successful \<open>Finalize\<close> every field holds the environment's value when
  its variable is set, else the file's, an explicit zero included, else the default. The hypothesis
  is what an override does with an unset variable, a good value and a bad one.
\<close>

theorem config_precedence:
  assumes "env_overrides api dp" "finalize_block api pre block c = (Ok (), c')"
  shows "let names = new_env api pre block; env = ea_getenv api in
    cf_env c' = names \<and>
    cf_host c' = (if env (en_host names) \<noteq> [] then env (en_host names)
      else if cf_host c \<noteq> [] then cf_host c else ''0.0.0.0'') \<and>
    cf_port c' = effective parse_int (env (en_port names)) (cf_port c) 8080 \<and>
    cf_read c' = effective dp (env (en_read names)) (cf_read c) (30 * one_second) \<and>
    cf_read_header c' = effective dp (env (en_read_header names)) (cf_read_header c) (5 * one_second) \<and>
    cf_write c' = effective dp (env (en_write names)) (cf_write c) (30 * one_second) \<and>
    cf_idle c' = effective dp (env (en_idle names)) (cf_idle c) (120 * one_second) \<and>
    cf_max_header c' = cf_max_header c \<and>
    cf_rate c' = effective parse_int (env (en_rate names)) (cf_rate c) 65536"
proof -
  let ?c = "apply_config_defaults (c\<lparr>cf_env := new_env api pre block\<rparr>)"
  let ?n = "new_env api pre block"
  have c: "cf_env ?c = ?n" "cf_port ?c = or_int (cf_port c) 8080" "cf_read ?c = or_int (cf_read c) (30 * one_second)"
    "cf_read_header ?c = or_int (cf_read_header c) (5 * one_second)" "cf_write ?c = or_int (cf_write c) (30 * one_second)"
    "cf_idle ?c = or_int (cf_idle c) (120 * one_second)" "cf_rate ?c = or_int (cf_rate c) 65536"
    "cf_max_header ?c = cf_max_header c" "cf_host ?c = (if cf_host c \<noteq> [] then cf_host c else ''0.0.0.0'')"
    by (simp_all add: apply_config_defaults_def)
  from assms(2) [unfolded finalize_block_Ok apply_env_Done c] obtain port read rh wt idle rate where f:
    "ea_set api (or_int (cf_port c) 8080) (en_port ?n) parse_int = Inr port"
    "ea_set_duration api (or_int (cf_read c) (30 * one_second)) (en_read ?n) = Inr read"
    "ea_set_duration api (or_int (cf_read_header c) (5 * one_second)) (en_read_header ?n) = Inr rh"
    "ea_set_duration api (or_int (cf_write c) (30 * one_second)) (en_write ?n) = Inr wt"
    "ea_set_duration api (or_int (cf_idle c) (120 * one_second)) (en_idle ?n) = Inr idle"
    "ea_set api (or_int (cf_rate c) 65536) (en_rate ?n) parse_int = Inr rate"
    and c': "c' = ?c\<lparr>cf_host := (if ea_getenv api (en_host ?n) \<noteq> [] then ea_getenv api (en_host ?n)
          else if cf_host c \<noteq> [] then cf_host c else ''0.0.0.0''),
        cf_port := port, cf_read := read, cf_read_header := rh, cf_write := wt, cf_idle := idle, cf_rate := rate\<rparr>"
    by blast
  show ?thesis
    unfolding Let_def c'
    using f(1,6) [THEN effective_set(1) [OF assms(1)]] f(2-5) [THEN effective_set(2) [OF assms(1)]] c by simp
qed

theorem config_precedence_witness:
  "\<exists>c'. finalize_block (example_api example_env) ''app'' ''server'' (unset_config\<lparr>cf_read := Some 0\<rparr>) = (Ok (), c') \<and>
     cf_port c' = Some 9000 \<and> cf_read c' = Some 0 \<and> cf_idle c' = Some (120 * one_second)"
proof -
  have "parse_int ''9000'' = Some 9000" by code_simp
  then show ?thesis
    using example_finalize config_precedence [OF example_api_overrides example_finalize]
    by (auto simp: Let_def effective_def example_api_def example_env_def new_env_def unset_config_def)
qed

text \<open>
  Claim C27 (bounds). \<open>Finalize\<close> never panics, and what it accepts is usable: every pointer set, the port
  within 16 bits, no negative timeout or header limit, a positive transfer rate. The hypothesis: an
  override never unsets a field.
\<close>

theorem config_valid:
  assumes "\<And>v n p v'. v \<noteq> None \<Longrightarrow> ea_set api v n p = Inr v' \<Longrightarrow> v' \<noteq> None"
    and "\<And>v n v'. v \<noteq> None \<Longrightarrow> ea_set_duration api v n = Inr v' \<Longrightarrow> v' \<noteq> None"
    and "finalize_block api pre block c = (r, c')"
  shows "\<not> is_panic r \<and> (r = Ok () \<longleftrightarrow> (\<forall>e. r \<noteq> Fail e)) \<and>
    (r = Ok () \<longrightarrow> finalized c' \<and> (\<exists>port. cf_port c' = Some port \<and> 0 \<le> port \<and> port \<le> 65535) \<and>
      (\<forall>field \<in> {cf_read, cf_read_header, cf_write, cf_idle}. \<exists>d. field c' = Some d \<and> 0 \<le> d) \<and>
      (\<forall>n. cf_max_header c' = Some n \<longrightarrow> 0 \<le> n) \<and> (\<exists>n. cf_rate c' = Some n \<and> 0 < n))"
proof -
  let ?c = "apply_config_defaults (c\<lparr>cf_env := new_env api pre block\<rparr>)"
  have set: "cf_port ?c \<noteq> None" "cf_read ?c \<noteq> None" "cf_read_header ?c \<noteq> None" "cf_write ?c \<noteq> None"
    "cf_idle ?c \<noteq> None" "cf_rate ?c \<noteq> None"
    by (simp_all add: apply_config_defaults_def or_int_def)
  have "\<not> is_panic r"
  proof (cases "apply_env api ?c")
    case (Pair e c1)
    show ?thesis
    proof (cases e)
      case None
      then have "apply_env api ?c = (None, c1)" using Pair by simp
      then obtain port read rh wt idle rate where f:
        "ea_set api (cf_port ?c) (en_port (cf_env ?c)) parse_int = Inr port"
        "ea_set_duration api (cf_read ?c) (en_read (cf_env ?c)) = Inr read"
        "ea_set_duration api (cf_read_header ?c) (en_read_header (cf_env ?c)) = Inr rh"
        "ea_set_duration api (cf_write ?c) (en_write (cf_env ?c)) = Inr wt"
        "ea_set_duration api (cf_idle ?c) (en_idle (cf_env ?c)) = Inr idle"
        "ea_set api (cf_rate ?c) (en_rate (cf_env ?c)) parse_int = Inr rate"
        and c1: "cf_port c1 = port" "cf_read c1 = read" "cf_read_header c1 = rh" "cf_write c1 = wt" "cf_idle c1 = idle"
          "cf_rate c1 = rate"
        unfolding apply_env_Done by fastforce
      have "finalized c1"
        unfolding finalized_def c1
        using assms(1) [OF set(1) f(1)] assms(2) [OF set(2) f(2)] assms(2) [OF set(3) f(3)] assms(2) [OF set(4) f(4)]
          assms(2) [OF set(5) f(5)] assms(1) [OF set(6) f(6)] by blast
      then show ?thesis
        using Pair None assms(3) validate_panic [of api c1] by (auto simp: finalize_block_def)
    next
      case (Some x)
      then show ?thesis using Pair assms(3) by (auto simp: finalize_block_def)
    qed
  qed
  moreover have "valid_config c'" if "r = Ok ()"
    using that assms(3) by (simp add: finalize_block_Ok)
  ultimately show ?thesis
    using valid_finalized [of c'] by (cases r) (auto simp: valid_config_def)
qed

theorem config_valid_witness:
  "finalized (snd (finalize_block (example_api example_env) ''app'' ''server'' (unset_config\<lparr>cf_read := Some 0\<rparr>)))"
proof -
  have "v \<noteq> None \<Longrightarrow> ea_set (example_api getenv) v n p = Inr v' \<Longrightarrow> v' \<noteq> None"
    "v \<noteq> None \<Longrightarrow> ea_set_duration (example_api getenv) v n = Inr v' \<Longrightarrow> v' \<noteq> None" for getenv v n p v'
    by (cases "getenv n = []"; cases "p (getenv n)"; cases "parse_int (getenv n)"; auto simp: example_api_def)+
  from config_valid [OF this example_finalize] show ?thesis by auto
qed

lemma show_nat_plain: "\<not> is_digit c \<Longrightarrow> c \<notin> set (show_nat n)"
  using show_nat_digits [of n] by (auto simp: list_all_iff)

text \<open>
  \<open>Addr\<close> of a finalized configuration is an address \<open>net.SplitHostPort\<close> reads
  back as its host, an IPv6 literal included, and the decimal port.
\<close>

theorem config_addr_roundtrip:
  assumes "valid_config c" "CHR ''['' \<notin> set (cf_host c)" "CHR '']'' \<notin> set (cf_host c)"
  shows "\<exists>port. cf_port c = Some port \<and> split_host_port (config_addr c) = Some (cf_host c, show_int port) \<and>
    parse_int (show_int port) = Some port"
proof -
  obtain port where port: "cf_port c = Some port" "0 \<le> port" "port \<le> 65535"
    using assms(1) by (auto simp: valid_config_def)
  have "split_host_port (config_addr c) = Some (cf_host c, show_int port)"
    using port assms(2,3)
    by (auto simp: config_addr_def show_int_def is_digit_def intro!: split_join_host_port show_nat_plain)
  moreover have "int64 port" using port by (simp add: int64_def min_int_def max_int_def)
  ultimately show ?thesis using port parse_int_show_int by blast
qed

theorem config_addr_roundtrip_witness:
  "split_host_port (config_addr (unset_config\<lparr>cf_host := ''::1'', cf_port := Some 80, cf_read := Some 0, cf_read_header := Some 0,
     cf_write := Some 0, cf_idle := Some 0, cf_rate := Some 1\<rparr>)) = Some (''::1'', show_int 80)"
  using config_addr_roundtrip [of "unset_config\<lparr>cf_host := ''::1'', cf_port := Some 80, cf_read := Some 0, cf_read_header := Some 0,
     cf_write := Some 0, cf_idle := Some 0, cf_rate := Some 1\<rparr>"]
  by (simp add: valid_config_def unset_config_def)

end
