(* ===== verification/Rate_Limit.thy ===== *)
theory Rate_Limit imports Request_Id Config begin

text \<open>
  The rate limit (\<open>middleware/rate-limit/ratelimit.go\<close>): its configuration, the key of a client, and
  the answers it gives \<open>httprate\<close> to send. The counting is \<open>httprate\<close>'s, a parameter.
\<close>

section \<open>Configuration\<close>

record limit_env =
  le_requests :: string
  le_window :: string

record limit_config =
  lc_requests :: "int option"
  lc_window :: "int option"
  lc_env :: limit_env

definition new_limit_env :: "env_api \<Rightarrow> string \<Rightarrow> string \<Rightarrow> limit_env" where
  "new_limit_env api pre block =
     \<lparr>le_requests = ea_name api pre block [''requests''], le_window = ea_name api pre block [''window'']\<rparr>"

definition limit_merge :: "limit_config \<Rightarrow> limit_config \<Rightarrow> limit_config" where
  "limit_merge c src =
     c\<lparr>lc_requests := overlay (lc_requests c) (lc_requests src), lc_window := overlay (lc_window c) (lc_window src)\<rparr>"

definition limit_defaults :: "limit_config \<Rightarrow> limit_config" where
  "limit_defaults c =
     c\<lparr>lc_requests := or_int (lc_requests c) 300, lc_window := or_int (lc_window c) (60 * one_second)\<rparr>"

definition limit_apply_env :: "env_api \<Rightarrow> limit_config overriding" where
  "limit_apply_env api c =
     overrides
       [override lc_requests (\<lambda>v c. c\<lparr>lc_requests := v\<rparr>) (\<lambda>v. ea_set api v (le_requests (lc_env c)) parse_int),
        override lc_window (\<lambda>v c. c\<lparr>lc_window := v\<rparr>) (\<lambda>v. ea_set_duration api v (le_window (lc_env c)))] c"

definition limit_validate :: "(int \<Rightarrow> string) \<Rightarrow> limit_config \<Rightarrow> (err, unit) res" where
  "limit_validate text c =
     checks_all
       [check_field (lc_requests c) (\<lambda>n. n \<le> 0) (\<lambda>n. ''invalid requests: '' @ show_int n),
        check_field (lc_window c) (\<lambda>n. n < one_second) (\<lambda>n. ''invalid window: '' @ text n)]"

definition limit_finalize_block :: "env_api \<Rightarrow> string \<Rightarrow> string \<Rightarrow> limit_config \<Rightarrow> (err, unit) res \<times> limit_config" where
  "limit_finalize_block api pre block c =
     (let c = limit_defaults (c\<lparr>lc_env := new_limit_env api pre block\<rparr>)
      in case limit_apply_env api c of
           (Some e, c) \<Rightarrow> (Fail e, c)
         | (None, c) \<Rightarrow> (limit_validate (ea_duration_text api) c, c))"

definition limit_finalize :: "env_api \<Rightarrow> string \<Rightarrow> limit_config \<Rightarrow> (err, unit) res \<times> limit_config" where
  "limit_finalize api pre c = limit_finalize_block api pre ''rate_limit'' c"

definition limit_finalized :: "limit_config \<Rightarrow> bool" where
  "limit_finalized c \<longleftrightarrow> lc_requests c \<noteq> None \<and> lc_window c \<noteq> None"

section \<open>The middleware\<close>

text \<open>
  \<open>canonicalize\<close> is \<open>httprate.CanonicalizeIP\<close>. \<open>limit_by\<close> is \<open>httprate.LimitBy\<close> with the limit and error
  handlers: requests, window, key function, limit handler, error handler.
\<close>

definition key_by_remote_addr :: "(string \<Rightarrow> string) \<Rightarrow> request \<Rightarrow> string" where
  "key_by_remote_addr canonicalize r =
     canonicalize (case split_host_port (r_remote r) of None \<Rightarrow> r_remote r | Some (host, port) \<Rightarrow> host)"

definition limited :: "string \<Rightarrow> handler" where
  "limited detail w a = go_bind (write_problem w a 429 [] detail) (\<lambda>_. go_return ())"

definition failed :: "writer \<Rightarrow> nat \<Rightarrow> err \<Rightarrow> unit go" where
  "failed w a e = go_bind (write_problem w a 500 [] ''The server could not evaluate the rate limit.'') (\<lambda>_. go_return ())"

type_synonym limit_by =
  "int \<Rightarrow> int \<Rightarrow> (request \<Rightarrow> string) \<Rightarrow> handler \<Rightarrow> (writer \<Rightarrow> nat \<Rightarrow> err \<Rightarrow> unit go) \<Rightarrow> middleware"

definition new_limit ::
  "limit_by \<Rightarrow> (string \<Rightarrow> string) \<Rightarrow> (int \<Rightarrow> string) \<Rightarrow> limit_config \<Rightarrow> (err, middleware) res" where
  "new_limit limit_by canonicalize text cfg =
     (if \<not> limit_finalized cfg then Panic ''ratelimit: New requires a finalized Config; call Finalize first''
      else
        case limit_validate text cfg of
          Panic m \<Rightarrow> Panic m
        | Fail e \<Rightarrow> Panic (''ratelimit: New requires a valid Config: '' @ error_text e)
        | Ok _ \<Rightarrow>
            let requests = the (lc_requests cfg); window = the (lc_window cfg);
                detail = ''The client exceeded the limit of '' @ show_int requests @ '' requests per '' @ text window @ ''.''
            in Ok (limit_by requests window (key_by_remote_addr canonicalize) (limited detail) failed))"

section \<open>Properties\<close>

lemma limit_validate_Ok:
  "limit_validate text c = Ok () \<longleftrightarrow>
     (\<exists>n. lc_requests c = Some n \<and> 0 < n) \<and> (\<exists>d. lc_window c = Some d \<and> one_second \<le> d)"
  by (auto simp: limit_validate_def checks_all_Ok check_field_Ok not_le not_less simp del: checks_all.simps(2))

lemma limit_apply_env_Done:
  "limit_apply_env api c = (None, c') \<longleftrightarrow>
     (\<exists>requests window. ea_set api (lc_requests c) (le_requests (lc_env c)) parse_int = Inr requests \<and>
        ea_set_duration api (lc_window c) (le_window (lc_env c)) = Inr window \<and>
        c' = c\<lparr>lc_requests := requests, lc_window := window\<rparr>)"
  by (auto simp: limit_apply_env_def overrides_simps simp del: overrides.simps(2))

text \<open>
  A rate limit's \<open>Finalize\<close> accepts exactly a positive count per a window of at
  least a second, each the environment's value, else the file's, else 300 per minute, and \<open>New\<close> never
  panics on what it accepted. The hypothesis is the one on overrides.
\<close>

theorem limit_config_accepted:
  assumes "env_overrides api dp" "limit_finalize_block api pre block c = (Ok (), c')"
  shows "(\<exists>n d. lc_requests c' = Some n \<and> 0 < n \<and> lc_window c' = Some d \<and> one_second \<le> d) \<and>
    lc_requests c' = effective parse_int (ea_getenv api (le_requests (new_limit_env api pre block))) (lc_requests c) 300 \<and>
    lc_window c' = effective dp (ea_getenv api (le_window (new_limit_env api pre block))) (lc_window c) (60 * one_second) \<and>
    is_ok (new_limit limit_by canonicalize text c')"
proof -
  let ?c = "limit_defaults (c\<lparr>lc_env := new_limit_env api pre block\<rparr>)"
  have run: "limit_apply_env api ?c = (None, c')" and ok: "limit_validate (ea_duration_text api) c' = Ok ()"
    using assms(2) by (auto simp: limit_finalize_block_def Let_def split: prod.splits option.splits)
  from run have f: "lc_requests c' = effective parse_int (ea_getenv api (le_requests (new_limit_env api pre block))) (lc_requests c) 300"
    "lc_window c' = effective dp (ea_getenv api (le_window (new_limit_env api pre block))) (lc_window c) (60 * one_second)"
    by (auto simp: limit_apply_env_Done limit_defaults_def dest!: effective_set [OF assms(1)])
  have "limit_validate text c' = Ok ()" using ok by (simp only: limit_validate_Ok)
  moreover have "limit_finalized c'" using ok by (auto simp: limit_validate_Ok limit_finalized_def)
  ultimately have "is_ok (new_limit limit_by canonicalize text c')" by (simp add: new_limit_def Let_def)
  then show ?thesis using f ok by (simp add: limit_validate_Ok)
qed

definition unset_limit :: limit_config where
  "unset_limit = \<lparr>lc_requests = None, lc_window = None, lc_env = \<lparr>le_requests = [], le_window = []\<rparr>\<rparr>"

theorem limit_config_accepted_witness:
  "\<exists>c'. limit_finalize (example_api (\<lambda>_. [])) [] unset_limit = (Ok (), c') \<and> lc_requests c' = Some 300 \<and>
     is_ok (new_limit (\<lambda>n d key lim err next. next) (\<lambda>h. h) show_int c')"
proof -
  obtain c' where c': "limit_finalize_block (example_api (\<lambda>_. [])) [] ''rate_limit'' unset_limit = (Ok (), c')"
    by (simp add: limit_finalize_block_def limit_apply_env_def override_def example_api_def unset_limit_def
        limit_defaults_def or_int_def limit_validate_def check_field_def one_second_def)
  from limit_config_accepted [OF example_api_overrides c', of "\<lambda>n d key lim err next. next" "\<lambda>h. h" show_int]
  show ?thesis using c' by (auto simp: limit_finalize_def effective_def example_api_def unset_limit_def)
qed

text \<open>
  Clients are told apart by host alone: two requests from one host have one key
  whatever their ports, an IPv6 host in brackets included; and an address with no port is the host.
\<close>

theorem rate_key_by_host:
  assumes "CHR ''['' \<notin> set host" "CHR '']'' \<notin> set host" "list_all is_digit port"
  shows "key_by_remote_addr canonicalize (r\<lparr>r_remote := join_host_port host port\<rparr>) = canonicalize host \<and>
    (CHR '':'' \<notin> set host \<longrightarrow> key_by_remote_addr canonicalize (r\<lparr>r_remote := host\<rparr>) = canonicalize host)"
proof -
  have "c \<notin> set port" if "\<not> is_digit c" for c using assms(3) that by (auto simp: list_all_iff)
  then have "CHR ''['' \<notin> set port" "CHR '']'' \<notin> set port" "CHR '':'' \<notin> set port" by (auto simp: is_digit_def)
  from split_join_host_port [OF assms(1,2) this] have "split_host_port (join_host_port host port) = Some (host, port)" .
  moreover have "CHR '':'' \<notin> set host \<Longrightarrow> split_host_port host = None"
    by (simp add: split_host_port_def last_index_byte_def)
  ultimately show ?thesis by (simp add: key_by_remote_addr_def)
qed

theorem rate_key_by_host_witness:
  "key_by_remote_addr (\<lambda>h. h) (example_request\<lparr>r_remote := ''[2001:db8::1]:4711''\<rparr>) = ''2001:db8::1''"
  using rate_key_by_host [of "''2001:db8::1''" "''4711''" "\<lambda>h. h" example_request]
  by (simp add: join_host_port_def is_digit_def)

lemma write_problem_answers:
  assumes "untouched w s" "200 \<le> status" "status \<le> 999" "body_allowed status"
  shows "\<exists>t. write_problem w a status title detail s = (Done None, t) \<and> map_option fst (w_sent t) = Some status \<and>
    header_get (conn_header t) ''Content-Type'' = problem_media_type \<and> same_outside s t"
proof -
  let ?p = "(status_problem status)\<lparr>p_title := title, p_detail := detail\<rparr>"
  have st: "p_status (apply_defaults (problem_for (req a s) ?p)) = status"
    using assms(2) by (simp add: apply_defaults_def Let_def status_problem_def)
  from problem_sends [OF assms(1), of "apply_defaults (problem_for (req a s) ?p)" ?p a] assms(2-4) st
  have "sends w (write_problem w a status title detail) status problem_media_type
      (marshal_problem (apply_defaults (problem_for (req a s) ?p))) s"
    by (simp add: write_problem_def status_problem_def)
  then show ?thesis by (auto simp: sends_def)
qed



end
