(* ===== verification/Stack.thy ===== *)
theory Stack imports Rate_Limit begin

text \<open>
  The stack as a whole: what the router, its middlewares, the modules and the handlers do to a
  response under one recorder. \<open>tracked\<close> is what the observing layers need of everything beneath
  them; the locale \<open>observed_layer\<close> is what they need of a middleware, and every middleware of the
  repository interprets it.
\<close>

section \<open>Effects a recorder follows\<close>

text \<open>
  Whatever the state, the effect is a sequence of steps of recorder \<open>i\<close>'s history, and it only adds
  to the log.
\<close>

definition tracked :: "nat \<Rightarrow> 'a go \<Rightarrow> bool" where
  "tracked i m \<longleftrightarrow> (\<forall>s. (rec_step i)\<^sup>*\<^sup>* s (snd (m s)) \<and> prefix (w_log s) (w_log (snd (m s))))"

lemma trackedI:
  "(\<And>s r t. m s = (r, t) \<Longrightarrow> (rec_step i)\<^sup>*\<^sup>* s t \<and> prefix (w_log s) (w_log t)) \<Longrightarrow> tracked i m"
  unfolding tracked_def by (metis prod.collapse)

lemma trackedD:
  "tracked i m \<Longrightarrow> m s = (r, t) \<Longrightarrow> (rec_step i)\<^sup>*\<^sup>* s t"
  "tracked i m \<Longrightarrow> m s = (r, t) \<Longrightarrow> prefix (w_log s) (w_log t)"
  by (auto simp: tracked_def dest: spec [of _ s])

lemma tracked_environment:
  assumes "\<And>s. w_recs (snd (m s)) i = w_recs s i \<and> w_sent (snd (m s)) = w_sent s \<and>
      (w_conn_err s \<noteq> None \<longrightarrow> w_conn_err (snd (m s)) \<noteq> None) \<and> prefix (w_log s) (w_log (snd (m s)))"
  shows "tracked i m"
  unfolding tracked_def
proof (intro allI conjI)
  fix s
  show "(rec_step i)\<^sup>*\<^sup>* s (snd (m s))"
    using assms [of s] by (intro r_into_rtranclp rec_step.environment) auto
  show "prefix (w_log s) (w_log (snd (m s)))" using assms by blast
qed

lemma tracked_bind_values:
  assumes "tracked i m" "\<And>x s t. m s = (Done x, t) \<Longrightarrow> tracked i (f x)"
  shows "tracked i (go_bind m f)"
proof (rule trackedI)
  fix s r t
  assume run: "go_bind m f s = (r, t)"
  obtain r' u where m: "m s = (r', u)" by fastforce
  note first = trackedD [OF assms(1) m]
  show "(rec_step i)\<^sup>*\<^sup>* s t \<and> prefix (w_log s) (w_log t)"
  proof (cases r')
    case (Done x)
    then have "f x u = (r, t)" using run m by (simp add: go_bind_def)
    from trackedD [OF assms(2) this] show ?thesis
      using first m Done by (blast intro: rtranclp_trans prefix_order.trans)
  next
    case (Panicked v)
    then show ?thesis using run m first by (simp add: go_bind_def)
  qed
qed

lemma tracked_bind: "tracked i m \<Longrightarrow> (\<And>x. tracked i (f x)) \<Longrightarrow> tracked i (go_bind m f)"
  by (rule tracked_bind_values)

lemma tracked_seq: "tracked i m \<Longrightarrow> tracked i n \<Longrightarrow> tracked i (go_seq m n)"
  unfolding go_seq_def by (rule tracked_bind)

lemma tracked_defer:
  assumes "tracked i m" "tracked i d"
  shows "tracked i (go_defer m d)"
proof (rule trackedI)
  fix s r t
  assume run: "go_defer m d s = (r, t)"
  obtain r' u where m: "m s = (r', u)" by fastforce
  obtain r'' v where d: "d u = (r'', v)" by fastforce
  have "t = v" using run m d by (auto simp: go_defer_def split: outcome.splits)
  then show "(rec_step i)\<^sup>*\<^sup>* s t \<and> prefix (w_log s) (w_log t)"
    using trackedD [OF assms(1) m] trackedD [OF assms(2) d]
    by (blast intro: rtranclp_trans prefix_order.trans)
qed

text \<open>Which effect runs may depend on the state.\<close>

lemma tracked_state: "(\<And>s. \<exists>n. tracked i n \<and> m s = n s) \<Longrightarrow> tracked i m"
  unfolding tracked_def by metis

lemma tracked_at: "tracked i n \<Longrightarrow> m s = n s \<Longrightarrow> \<exists>n. tracked i n \<and> m s = n s"
  by blast

lemma tracked_if: "tracked i m \<Longrightarrow> tracked i n \<Longrightarrow> tracked i (if b then m else n)"
  by simp

section \<open>The writer's operations\<close>

lemma tracked_basic:
  "tracked i (go_return x)" "tracked i (go_panic v)" "tracked i (go_read f)"
  "tracked i (set_request a g)" "tracked i (new_request rq)" "tracked i new_miss" "tracked i (log_attrs l msg as)"
  by (rule tracked_environment; simp add: set_request_def new_request_def new_miss_def log_attrs_def)+

lemma rec_step_log: "m s = (r, t) \<Longrightarrow> response_only m \<Longrightarrow> prefix (w_log s) (w_log t)"
  by (auto dest: response_onlyD simp: same_outside_def)

lemma tracked_header: "tracked i (writer_header (Rec i) f)"
proof (rule tracked_environment)
  fix s
  obtain r t where "base_header (writer_base (Rec i) s) f s = (r, t)" by fastforce
  then show "w_recs (snd (writer_header (Rec i) f s)) i = w_recs s i \<and>
      w_sent (snd (writer_header (Rec i) f s)) = w_sent s \<and>
      (w_conn_err s \<noteq> None \<longrightarrow> w_conn_err (snd (writer_header (Rec i) f s)) \<noteq> None) \<and>
      prefix (w_log s) (w_log (snd (writer_header (Rec i) f s)))"
    by (cases "writer_base (Rec i) s") (auto simp: writer_header_def miss_header_def)
qed

lemma tracked_write_header:
  assumes "100 \<le> code" "code \<le> 999"
  shows "tracked i (writer_write_header (Rec i) code)"
proof (rule trackedI)
  fix s r t
  assume run: "writer_write_header (Rec i) code s = (r, t)"
  then have "recorder_write_header i code s = (r, t)" by (simp add: writer_write_header_def)
  then have "rec_step i s t" using assms by (intro rec_step.do_write_header) auto
  then show "(rec_step i)\<^sup>*\<^sup>* s t \<and> prefix (w_log s) (w_log t)"
    using rec_step_log [OF run response_only_basic(4)] by blast
qed

lemma tracked_write: "tracked i (writer_write (Rec i) b)"
proof (rule trackedI)
  fix s r t
  assume run: "writer_write (Rec i) b s = (r, t)"
  then have "rec_step i s t" by (intro rec_step.do_write) (simp add: writer_write_def)
  then show "(rec_step i)\<^sup>*\<^sup>* s t \<and> prefix (w_log s) (w_log t)"
    using rec_step_log [OF run response_only_basic(5)] by blast
qed

lemmas tracked_intros = tracked_basic tracked_header tracked_write tracked_bind tracked_seq

lemma tracked_send_json:
  assumes "100 \<le> status" "status \<le> 999"
  shows "tracked i (send_json (writer_header (Rec i)) (writer_write_header (Rec i)) (writer_write (Rec i)) media status j)"
  unfolding send_json_def encode_to_def
  by (intro tracked_seq tracked_header tracked_write_header assms) (auto intro: tracked_intros split: option.split)

lemma tracked_problem:
  assumes "100 \<le> p_status p" "p_status p \<le> 999"
  shows "tracked i (problem_write_for (Rec i) a p)"
proof (rule tracked_state)
  fix s
  have "p_status (apply_defaults (problem_for (req a s) p)) = p_status p"
    using assms by (simp add: apply_defaults_def Let_def)
  then have "tracked i (problem_write (Rec i) (problem_for (req a s) p))"
    using assms by (simp add: problem_write_def Let_def tracked_send_json)
  then show "\<exists>n. tracked i n \<and> problem_write_for (Rec i) a p s = n s"
    by (auto simp: problem_write_for_def)
qed

lemma tracked_write_problem:
  "100 \<le> status \<Longrightarrow> status \<le> 999 \<Longrightarrow> tracked i (write_problem (Rec i) a status title detail)"
  unfolding write_problem_def by (rule tracked_problem) (simp_all add: status_problem_def)

lemma wrap_recorder: "go_bind (wrap_writer (Rec i)) f = f i"
  by (simp add: fun_eq_iff go_bind_def wrap_writer_def)

section \<open>What the observing layers make of them\<close>

definition tracked_handler :: "handler \<Rightarrow> bool" where
  "tracked_handler h \<longleftrightarrow> (\<forall>i a. tracked i (h (Rec i) a))"

lemma tracked_handlerD: "tracked_handler h \<Longrightarrow> tracked i (h (Rec i) a)"
  by (simp add: tracked_handler_def)

lemma rec_reachable_steps: "(rec_step i)\<^sup>*\<^sup>* s t \<Longrightarrow> rec_reachable i s \<Longrightarrow> rec_reachable i t"
  by (induction rule: rtranclp_induct) (auto intro: rec_reachable.step)

lemma wrap_reachable:
  assumes "w_sent s = None"
  obtains i s1 where "wrap_writer (Base Conn) s = (Done i, s1)" "rec_reachable i s1" "w_log s1 = w_log s"
  using rec_reachable.start [OF assms] by (simp add: wrap_writer_def)

text \<open>A problem written on an uncommitted response commits its status, and that status stays.\<close>

lemma tracked_encode: "tracked i (encode_to (writer_write (Rec i)) j)"
  by (auto simp: encode_to_def intro: tracked_intros split: option.split)

lemma send_json_commits:
  assumes "\<not> recorder_committed i s" "200 \<le> status" "status \<le> 999"
    "send_json (writer_header (Rec i)) (writer_write_header (Rec i)) (writer_write (Rec i)) media status j s = (r, t)"
  shows "recorder_committed i t \<and> recorder_status i t = status"
proof -
  obtain s1 where h: "writer_header (Rec i) (header_set ''Content-Type'' media) s = (Done (), s1)" "w_recs s1 = w_recs s"
    by (cases "writer_base (Rec i) s") (simp_all add: writer_header_def miss_header_def)
  have "100 \<le> status" using assms(2) by simp
  from base_write_header_Done [OF this assms(3)]
  obtain u where u: "base_write_header (rc_inner (w_recs s1 i)) status s1 = (Done (), u)"
    by (metis prod.collapse)
  let ?s2 = "u\<lparr>w_recs := commit_recs i status (w_recs s1)\<rparr>"
  have w: "writer_write_header (Rec i) status s1 = (Done (), ?s2)"
    using u assms(2) by (simp add: writer_write_header_def recorder_operations final_code_def)
  have c: "recorder_committed i ?s2" "recorder_status i ?s2 = status"
    using assms(1) h(2) by (simp_all add: recorder_committed_def recorder_status_def)
  have "encode_to (writer_write (Rec i)) j ?s2 = (r, t)"
    using assms(4) h(1) w by (simp add: send_json_def go_simps)
  from trackedD(1) [OF tracked_encode this] recorder_status_final [OF _ c(1)] c show ?thesis by auto
qed

lemma write_problem_commits:
  assumes "\<not> recorder_committed i s" "200 \<le> status" "status \<le> 999"
    "write_problem (Rec i) a status title detail s = (r, t)"
  shows "recorder_committed i t \<and> recorder_status i t = status"
proof -
  let ?p = "(status_problem status)\<lparr>p_title := title, p_detail := detail\<rparr>"
  have "p_status (apply_defaults (problem_for (req a s) ?p)) = status"
    using assms(2) by (simp add: apply_defaults_def Let_def status_problem_def)
  then show ?thesis
    using assms by (auto simp: write_problem_def problem_write_for_def problem_write_def Let_def dest: send_json_commits)
qed

lemma tracked_add_record: "tracked i (\<lambda>s. (r, add_record lg s))"
  by (rule tracked_environment) (simp add: add_record_def)

lemma tracked_after_record:
  assumes "tracked i m"
  shows "tracked i (\<lambda>s. m (add_record (f s) s))"
proof (rule trackedI)
  fix s r t
  assume run: "m (add_record (f s) s) = (r, t)"
  have "(rec_step i)\<^sup>*\<^sup>* s (add_record (f s) s)" "prefix (w_log s) (w_log (add_record (f s) s))"
    using tracked_add_record [of i "Done ()" "f s"] by (auto simp: tracked_def)
  then show "(rec_step i)\<^sup>*\<^sup>* s t \<and> prefix (w_log s) (w_log t)"
    using trackedD [OF assms run] by (blast intro: rtranclp_trans prefix_order.trans)
qed

lemma tracked_modify_record: "tracked i (go_modify (\<lambda>s. add_record (f s) s))"
  by (rule tracked_environment) (simp add: add_record_def)

lemma tracked_recovered: "tracked i (recovered i a p)"
proof (rule tracked_state)
  fix s
  let ?lg = "\<lambda>s. panic_record (req a s) (if recorder_committed i s then Some (recorder_status i s) else None) p"
  let ?answer = "go_bind (write_problem (Rec i) a 500 [] ''The server encountered an unexpected condition.'') (\<lambda>e.
      case e of None \<Rightarrow> go_return ()
      | Some e \<Rightarrow> go_modify (\<lambda>s2. add_record
          \<lparr>lg_level = Error, lg_message = ''failed to write problem response'',
           lg_attrs = recover_attrs (req a s) @
             [(''http.response.status_code'', AInt (recorder_status i s2)), (''error'', AStr (error_text e))]\<rparr> s2))"
  have "tracked i ?answer"
    by (intro tracked_bind tracked_write_problem)
      (auto intro: tracked_intros tracked_modify_record split: option.split)
  then have "tracked i (if recorder_committed i s then go_panic AbortHandler else ?answer)"
    by (rule tracked_if [OF tracked_basic(2)])
  note answer = tracked_after_record [OF this, of ?lg]
  show "\<exists>n. tracked i n \<and> recovered i a p s = n s"
    by (rule exI [where P = "\<lambda>n. tracked i n \<and> recovered i a p s = n s", OF conjI], rule answer)
      (simp add: recovered_def Let_def)
qed

lemma recovered_500:
  assumes "\<not> recorder_committed i s" "recovered i a p s = (out, t)"
  shows "recorder_committed i t \<and> recorder_status i t = 500"
proof -
  let ?s = "add_record (panic_record (req a s) None p) s"
  obtain e u where u: "write_problem (Rec i) a 500 [] ''The server encountered an unexpected condition.'' ?s = (Done e, u)"
    using write_problem_Done [of 500] by fastforce
  have "\<not> recorder_committed i ?s" using assms(1) by (simp add: recorder_committed_def add_record_def)
  from write_problem_commits [OF this _ _ u] have "recorder_committed i u \<and> recorder_status i u = 500" by simp
  moreover have "w_recs t = w_recs u"
    using assms u by (auto simp: recovered_def Let_def go_simps add_record_def split: option.splits)
  ultimately show ?thesis by (simp add: recorder_committed_def recorder_status_def)
qed

text \<open>The record of the request agrees with the wire, whatever tracked handler is beneath.\<close>

definition log_agrees :: "world \<Rightarrow> unit outcome \<Rightarrow> world \<Rightarrow> bool" where
  "log_agrees s out t \<longleftrightarrow>
     (\<exists>prior lg rest st. w_log t = prior @ lg # rest \<and> prefix (w_log s) prior \<and> lg_message lg = ''request'' \<and>
        (''http.response.status_code'', AInt st) \<in> set (lg_attrs lg) \<and>
        (case w_sent t of Some (sent, _) \<Rightarrow> st = sent | None \<Rightarrow> st = (if out = Done () then 200 else 500)))"

lemma tracked_log_agrees:
  assumes "tracked_handler h" "w_sent s = None" "recoverer_serve (logger_serve h) (Base Conn) a s = (out, t)" "w_conn_err t = None"
  shows "log_agrees s out t"
proof -
  obtain i s1 where w: "wrap_writer (Base Conn) s = (Done i, s1)" "rec_reachable i s1" "w_log s1 = w_log s"
    using assms(2) by (rule wrap_reachable)
  obtain r s2 where h: "h (Rec i) a s1 = (r, s2)" by fastforce
  note below = trackedD [OF tracked_handlerD [OF assms(1)] h]
  define st where "st = logged_status i (r = Done ()) s2"
  define lg where "lg = request_record (req a s2) st (w_clock s2 - w_clock s1)"
  define s3 where "s3 = add_record lg s2"
  have "wrap_writer (Rec i) s1 = (Done i, s1)" by (simp add: wrap_writer_def)
  from logger_serve_run [where inner = h, OF this h]
  have log: "logger_serve h (Rec i) a s1 = (r, s3)" by (simp add: st_def lg_def s3_def)
  have reach: "rec_reachable i s3"
    using rec_reachable.step [OF rec_reachable_steps [OF below(1) w(2)] rec_step_add_record] by (simp add: s3_def)
  have s3: "w_log s3 = w_log s2 @ [lg]" "logged_status i (r = Done ()) s3 = st" "recorder_committed i s3 = recorder_committed i s2"
    by (simp_all add: s3_def add_record_def st_def logged_status_def recorder_committed_def recorder_status_def)
  have lg: "lg_message lg = ''request''" "(''http.response.status_code'', AInt st) \<in> set (lg_attrs lg)"
    using request_record_status by (simp_all add: lg_def request_record_def)
  have agrees: "log_agrees s out t"
    if grown: "prefix (w_log s3) (w_log t)" and wire: "case w_sent t of Some (sent, _) \<Rightarrow> st = sent | None \<Rightarrow> st = (if out = Done () then 200 else 500)"
  proof -
    obtain rest where "w_log t = w_log s2 @ lg # rest" using grown s3(1) by (auto elim!: prefixE)
    then show ?thesis unfolding log_agrees_def using wire lg below(2) w(3) by metis
  qed
  have client: "st = client_status (r = Done ()) s3" if "w_conn_err s3 = None"
    using logged_status_true [OF reach that] s3(2) by simp
  show ?thesis
  proof (cases r)
    case (Done x)
    then have "out = Done ()" "t = s3" using recoverer_serve_run [where inner = "logger_serve h", OF w(1) log] assms(3) by auto
    then show ?thesis using client assms(4) Done by (intro agrees) (auto simp: client_status_def split: option.split)
  next
    case (Panicked p)
    show ?thesis
    proof (cases p)
      case AbortHandler
      then have "out = Panicked AbortHandler" "t = s3"
        using recoverer_serve_run [where inner = "logger_serve h", OF w(1) log] assms(3) Panicked by auto
      then show ?thesis using client assms(4) Panicked by (intro agrees) (auto simp: client_status_def split: option.split)
    next
      case (PanicValue v)
      then have run: "recovered i a (PanicValue v) s3 = (out, t)"
        using recoverer_serve_run [where inner = "logger_serve h", OF w(1) log] assms(3) Panicked by auto
      note up = trackedD [OF tracked_recovered run]
      have inv: "rec_inv i t" using rec_reachable_inv [OF rec_reachable_steps [OF up(1) reach]] .
      have final: "recorder_committed i t \<and> recorder_status i t = st"
      proof (cases "recorder_committed i s3")
        case True
        then show ?thesis using recorder_status_final [OF up(1) True] s3(2) by (simp add: logged_status_def)
      next
        case False
        then show ?thesis using recovered_500 [OF False run] s3(2) Panicked by (simp add: logged_status_def)
      qed
      then have "map_option fst (w_sent t) = Some st" using inv assms(4) by (simp add: rec_inv_def)
      then show ?thesis using up(2) by (intro agrees) auto
    qed
  qed
qed

lemma logger_log_agrees:
  assumes "tracked_handler h" "w_sent s = None" "logger_serve h (Base Conn) a s = (out, t)" "w_conn_err t = None"
  shows "log_agrees s out t"
proof -
  obtain i s1 where w: "wrap_writer (Base Conn) s = (Done i, s1)" "rec_reachable i s1" "w_log s1 = w_log s"
    using assms(2) by (rule wrap_reachable)
  obtain r s2 where h: "h (Rec i) a s1 = (r, s2)" by fastforce
  note below = trackedD [OF tracked_handlerD [OF assms(1)] h]
  define st where "st = logged_status i (r = Done ()) s2"
  define lg where "lg = request_record (req a s2) st (w_clock s2 - w_clock s)"
  have t: "out = r" "t = add_record lg s2"
    using logger_serve_run [where inner = h, OF w(1) h] assms(3) by (simp_all add: st_def lg_def)
  have "w_conn_err s2 = None" using assms(4) t(2) by (simp add: add_record_def)
  from logged_status_true [OF rec_reachable_steps [OF below(1) w(2)] this]
  have "case w_sent t of Some (sent, _) \<Rightarrow> st = sent | None \<Rightarrow> st = (if out = Done () then 200 else 500)"
    by (auto simp: t add_record_def st_def client_status_def split: option.split)
  moreover have "w_log t = w_log s2 @ lg # []" "prefix (w_log s) (w_log s2)"
    using t(2) below(2) w(3) by (simp_all add: add_record_def)
  moreover have "lg_message lg = ''request''" "(''http.response.status_code'', AInt st) \<in> set (lg_attrs lg)"
    using request_record_status by (simp_all add: lg_def request_record_def)
  ultimately show ?thesis unfolding log_agrees_def by metis
qed

section \<open>Layers\<close>

text \<open>What a middleware promises: around a tracked handler it is one.\<close>

locale observed_layer =
  fixes mw :: middleware
  assumes keeps_tracked: "tracked_handler h \<Longrightarrow> tracked_handler (mw h)"
begin

lemma under_observers:
  "tracked_handler h \<Longrightarrow> w_sent s = None \<Longrightarrow> w_conn_err t = None \<Longrightarrow>
     recoverer_serve (logger_serve (mw h)) (Base Conn) a s = (out, t) \<Longrightarrow> log_agrees s out t"
  by (rule tracked_log_agrees [OF keeps_tracked])

lemma as_outer_observer:
  "tracked_handler h \<Longrightarrow> w_sent s = None \<Longrightarrow> w_conn_err t = None \<Longrightarrow>
     logger_serve (mw h) (Base Conn) a s = (out, t) \<Longrightarrow> log_agrees s out t"
  by (rule logger_log_agrees [OF keeps_tracked])

end

locale observed_pair = outer: observed_layer f + inner: observed_layer g for f g

sublocale observed_pair \<subseteq> both: observed_layer "\<lambda>h. f (g h)"
  by unfold_locales (blast intro: outer.keeps_tracked inner.keeps_tracked)

lemma tracked_handlerI: "(\<And>i a. tracked i (h (Rec i) a)) \<Longrightarrow> tracked_handler h"
  by (simp add: tracked_handler_def)

interpretation logger_layer: observed_layer logger_serve
proof (unfold_locales, rule tracked_handlerI)
  fix h i a
  assume h: "tracked_handler h"
  show "tracked i (logger_serve h (Rec i) a)"
  proof (rule trackedI)
    fix s r t
    assume run: "logger_serve h (Rec i) a s = (r, t)"
    obtain r' u where u: "h (Rec i) a s = (r', u)" by fastforce
    then obtain lg where t: "t = add_record lg u"
      using run logger_serve_run [where inner = h and w = "Rec i" and s = s and ?s1.0 = s]
      by (auto simp: wrap_writer_def)
    have "(rec_step i)\<^sup>*\<^sup>* u t" unfolding t by (intro r_into_rtranclp rec_step_add_record)
    then show "(rec_step i)\<^sup>*\<^sup>* s t \<and> prefix (w_log s) (w_log t)"
      using trackedD [OF tracked_handlerD [OF h] u] by (auto simp: t add_record_def intro: rtranclp_trans)
  qed
qed

interpretation recoverer_layer: observed_layer recoverer_serve
proof (unfold_locales, rule tracked_handlerI)
  fix h i a
  assume h: "tracked_handler h"
  show "tracked i (recoverer_serve h (Rec i) a)"
  proof (rule trackedI)
    fix s r t
    assume run: "recoverer_serve h (Rec i) a s = (r, t)"
    obtain r' u where u: "h (Rec i) a s = (r', u)" by fastforce
    have "t = u \<or> (\<exists>v. recovered i a (PanicValue v) u = (r, t))"
      using run u recoverer_serve_run [where inner = h and w = "Rec i" and s = s and ?s1.0 = s]
      by (auto simp: wrap_writer_def split: outcome.splits panic_value.splits)
    then show "(rec_step i)\<^sup>*\<^sup>* s t \<and> prefix (w_log s) (w_log t)"
      using trackedD [OF tracked_handlerD [OF h] u] trackedD [OF tracked_recovered]
      by (blast intro: rtranclp_trans prefix_order.trans)
  qed
qed

interpretation body_limit_layer: observed_layer "body_limit_serve n" for n
  by unfold_locales (auto simp: tracked_handler_def body_limit_serve_def intro!: tracked_seq tracked_basic)

interpretation timeout_layer: observed_layer "timeout_serve d" for d
  by unfold_locales
    (auto simp: tracked_handler_def timeout_serve_def intro!: tracked_bind tracked_defer tracked_basic)

interpretation headers_layer: observed_layer "headers_serve fixed" for fixed
  by unfold_locales (auto simp: tracked_handler_def headers_serve_def intro!: tracked_seq tracked_header)

interpretation bounded_layer: observed_pair "timeout_serve d" "body_limit_serve n" for d n
  by unfold_locales

lemma tracked_reject_type: "tracked i (reject_type (Rec i) a why accepted)"
  unfolding reject_type_def by (intro tracked_bind tracked_write_problem tracked_basic) simp_all

interpretation content_type_layer: observed_layer "content_type_serve parse_media types" for parse_media types
  by unfold_locales
    (auto simp: tracked_handler_def content_type_serve_def Let_def intro!: tracked_bind tracked_basic tracked_reject_type
      split: sum.split)

lemma tracked_config_id: "tracked i (config_id c a)"
proof (rule tracked_environment)
  fix s
  obtain rid p where "config_id c a s = (Done rid, s\<lparr>w_rand_pos := p\<rparr>)" using config_id_run by blast
  then show "w_recs (snd (config_id c a s)) i = w_recs s i \<and> w_sent (snd (config_id c a s)) = w_sent s \<and>
      (w_conn_err s \<noteq> None \<longrightarrow> w_conn_err (snd (config_id c a s)) \<noteq> None) \<and>
      prefix (w_log s) (w_log (snd (config_id c a s)))"
    by simp
qed

interpretation request_id_layer: observed_layer "request_id_serve c" for c
  by unfold_locales
    (auto simp: tracked_handler_def request_id_serve_def intro!: tracked_bind tracked_seq tracked_basic tracked_header
      tracked_config_id)

lemma maybe_layer:
  assumes "observed_layer mw"
  shows "observed_layer (maybe_serve mw pred)"
proof (unfold_locales, rule tracked_handlerI)
  fix h i a
  assume h: "tracked_handler h"
  note both = tracked_handlerD [OF h] tracked_handlerD [OF observed_layer.keeps_tracked [OF assms h]]
  show "tracked i (maybe_serve mw pred h (Rec i) a)"
  proof (rule tracked_state)
    fix s
    show "\<exists>n. tracked i n \<and> maybe_serve mw pred h (Rec i) a s = n s"
      using both [of i a] by (cases "pred (req a s)") (auto simp: maybe_serve_def)
  qed
qed

lemma tracked_after_header:
  assumes "tracked i m"
  shows "\<exists>n. tracked i n \<and> m (s\<lparr>w_header := h\<rparr>) = n s"
proof (intro exI conjI)
  show "tracked i (go_seq (go_modify (\<lambda>s. s\<lparr>w_header := h\<rparr>)) m)"
    by (rule tracked_seq [OF tracked_environment assms]) simp
  show "m (s\<lparr>w_header := h\<rparr>) = go_seq (go_modify (\<lambda>s. s\<lparr>w_header := h\<rparr>)) m s" by simp
qed

text \<open>
  The rate limit is a layer when \<open>httprate\<close> sets headers and calls one of the handlers given to it.
\<close>

definition calls_one :: "limit_by \<Rightarrow> bool" where
  "calls_one limit_by \<longleftrightarrow>
     (\<forall>n d key lim err nxt w a s. \<exists>h e. limit_by n d key lim err nxt w a s \<in>
        {nxt w a (s\<lparr>w_header := h\<rparr>), lim w a (s\<lparr>w_header := h\<rparr>), err w a e (s\<lparr>w_header := h\<rparr>)})"

lemma limit_layer:
  assumes "new_limit limit_by canonicalize text cfg = Ok f" "calls_one limit_by"
  shows "observed_layer f"
proof (unfold_locales, rule tracked_handlerI)
  fix nxt i a
  assume nxt: "tracked_handler nxt"
  obtain n d detail where f: "f = limit_by n d (key_by_remote_addr canonicalize) (limited detail) failed"
    using assms(1) by (auto simp: new_limit_def Let_def split: if_splits res.splits)
  have own: "tracked i (limited detail (Rec i) a)" "tracked i (failed (Rec i) a e)" for e
    unfolding limited_def failed_def by (intro tracked_bind tracked_write_problem tracked_basic; simp)+
  show "tracked i (f nxt (Rec i) a)"
  proof (rule tracked_state)
    fix s
    obtain h e where "f nxt (Rec i) a s \<in>
        {nxt (Rec i) a (s\<lparr>w_header := h\<rparr>), limited detail (Rec i) a (s\<lparr>w_header := h\<rparr>), failed (Rec i) a e (s\<lparr>w_header := h\<rparr>)}"
      using assms(2) unfolding f calls_one_def by metis
    then show "\<exists>n. tracked i n \<and> f nxt (Rec i) a s = n s"
      using tracked_after_header [OF tracked_handlerD [OF nxt]] tracked_after_header [OF own(1)]
        tracked_after_header [OF own(2)] by (elim insertE) (metis empty_iff)+
  qed
qed

lemma tracked_chain:
  "(\<And>mw. Some mw \<in> set mws \<Longrightarrow> observed_layer mw) \<Longrightarrow> tracked_handler h \<Longrightarrow> tracked_handler (chain h mws)"
proof (induction mws)
  case (Cons m mws)
  then have "tracked_handler (chain h mws)" by simp
  then show ?case
    using Cons.prems(1) [THEN observed_layer.keeps_tracked] by (cases m) simp_all
qed simp

section \<open>The handlers at the bottom\<close>

text \<open>\<open>Handle\<close>: the handler's own writes, and the problem its error becomes.\<close>

definition sendable :: "error_writer \<Rightarrow> err \<Rightarrow> bool" where
  "sendable ew e \<longleftrightarrow> 100 \<le> p_status (ew_problem ew e) \<and> p_status (ew_problem ew e) \<le> 999"

lemma tracked_log_cause: "tracked i (log_cause a st e)"
  by (rule tracked_environment) (simp add: log_cause_def log_attrs_def)

lemma tracked_log_request: "tracked i (log_request msg j a e)"
  by (rule tracked_environment) (simp add: log_request_def log_attrs_def)

lemma tracked_ew_write:
  assumes "sendable ew e"
  shows "tracked i (ew_write ew (Rec i) a e)"
proof -
  obtain p whole where p: "error_problem ew e = (p, whole)" by fastforce
  have "p_status (with_detail ew e (p, whole)) = p_status p" by (simp add: with_detail_def)
  moreover have "100 \<le> p_status p" "p_status p \<le> 999"
    using assms p by (simp_all add: sendable_def ew_problem_def)
  ultimately show ?thesis
    by (auto simp: ew_write_def p intro!: tracked_seq tracked_problem tracked_log_cause tracked_basic)
qed

lemma tracked_serve_func:
  assumes "\<And>i a. tracked i (fn (Rec i) a)" "\<And>i a s e t. fn (Rec i) a s = (Done (Some e), t) \<Longrightarrow> sendable ew e"
  shows "tracked_handler (serve_func fn ew)"
  unfolding tracked_handler_def serve_func_def wrap_recorder
proof (intro allI tracked_bind_values [OF assms(1)])
  fix i a returned s t
  assume "fn (Rec i) a s = (Done returned, t)"
  then have "tracked i (ew_write ew (Rec i) a e)" if "returned = Some e" for e
    using that assms(2) by (blast intro: tracked_ew_write)
  then show "tracked i (case returned of
      None \<Rightarrow> go_return ()
    | Some e \<Rightarrow> go_bind (go_read (recorder_committed i)) (\<lambda>committed.
        if committed then log_request ''handler returned an error after committing its response'' i a e
        else go_bind (ew_write ew (Rec i) a e) (\<lambda>werr.
          case werr of None \<Rightarrow> go_return () | Some we \<Rightarrow> log_request ''failed to write problem response'' i a we)))"
    by (auto intro!: tracked_bind tracked_basic tracked_log_request split: option.split)
qed

lemma tracked_write_json: "100 \<le> status \<Longrightarrow> status \<le> 999 \<Longrightarrow> tracked i (write_json (Rec i) status j)"
  unfolding write_json_def by (rule tracked_send_json)

lemma tracked_liveness: "tracked_handler liveness"
  unfolding tracked_handler_def liveness_def
  by (intro allI tracked_seq tracked_header tracked_bind tracked_write_json tracked_basic) simp_all

lemma tracked_readiness: "tracked_handler (readiness not_ready checks)"
proof (rule tracked_handlerI)
  fix i a
  have "tracked i (problem_write_for (Rec i) a (with_checks (not_ready_problem not_ready) results))" for results
    by (rule tracked_problem) (simp_all add: with_checks_def not_ready_problem_def Let_def)
  then show "tracked i (readiness not_ready checks (Rec i) a)"
    by (auto simp: readiness_def Let_def intro!: tracked_bind tracked_seq tracked_header tracked_write_json tracked_basic)
qed

section \<open>The mux, the modules and the router\<close>

text \<open>
  What is documented of \<open>ServeMux\<close>: it serves a request with a handler registered on it, or answers a
  miss itself, and then touches only the writer it is given.
\<close>

definition faithful_lookup :: "lookup \<Rightarrow> bool" where
  "faithful_lookup lookup \<longleftrightarrow>
     (\<forall>mux r. case lookup mux r of
        Matched pattern h vals \<Rightarrow> (pattern, h) \<in> set mux
      | Missed h \<Rightarrow> tracked_handler h \<and> (\<forall>i m a. tracked i (h (Base (Miss m)) a)))"

lemma tracked_serve_mux:
  assumes "faithful_lookup lookup" "\<And>p h. (p, h) \<in> set mux \<Longrightarrow> tracked_handler h"
    "tracked_handler not_found" "tracked_handler method_not_allowed"
  shows "tracked_handler (\<lambda>w a. serve_mux lookup w a mux not_found method_not_allowed)"
proof (rule tracked_handlerI, rule tracked_state)
  fix i a s
  have own: "tracked i (not_found (Rec i) a)" "tracked i (method_not_allowed (Rec i) a)"
    using assms(3,4) by (simp_all add: tracked_handlerD)
  consider "r_uri (req a s) = ''*''"
    | p h vals where "r_uri (req a s) \<noteq> ''*''" "lookup mux (req a s) = Matched p h vals" "tracked i (h (Rec i) a)"
    | h where "r_uri (req a s) \<noteq> ''*''" "lookup mux (req a s) = Missed h" "tracked i (h (Rec i) a)"
        "\<And>m. tracked i (h (Base (Miss m)) a)"
    using assms(1,2) by (cases "lookup mux (req a s)")
      (force simp: faithful_lookup_def tracked_handler_def dest: spec [of _ mux] spec [of _ "req a s"])+
  then show "\<exists>n. tracked i n \<and> serve_mux lookup (Rec i) a mux not_found method_not_allowed s = n s"
  proof cases
    case 1
    let ?close = "if proto_at_least (req a s) 1 1 then writer_header (Rec i) (header_set ''Connection'' ''close'') else go_return ()"
    have "tracked i (go_seq ?close (writer_write_header (Rec i) 400))"
      by (intro tracked_seq tracked_if tracked_header tracked_write_header tracked_basic) simp_all
    then show ?thesis by (rule tracked_at) (simp add: serve_mux_def 1)
  next
    case 2
    then have "tracked i (go_seq (set_request a (\<lambda>r. r\<lparr>r_pattern := p, r_values := vals\<rparr>)) (h (Rec i) a))"
      by (intro tracked_seq tracked_basic)
    then show ?thesis using 2 by (auto simp: serve_mux_def)
  next
    case 3
    let ?answer = "\<lambda>mr. if mr_status mr = 301 \<or> mr_status mr = 307 \<or> mr_status mr = 308 then h (Rec i) a
        else if mr_status mr = 405
        then go_seq (if header_get (mr_header mr) ''Allow'' \<noteq> []
               then writer_header (Rec i) (header_set ''Allow'' (header_get (mr_header mr) ''Allow'')) else go_return ())
             (method_not_allowed (Rec i) a)
        else not_found (Rec i) a"
    have "tracked i (?answer mr)" for mr
      using own 3 by (auto intro!: tracked_seq tracked_header tracked_basic)
    then have "tracked i (go_bind new_miss (\<lambda>m. go_seq (h (Base (Miss m)) a) (go_bind (go_read (\<lambda>s. w_misses s m)) ?answer)))"
      using 3 by (intro tracked_bind tracked_seq tracked_basic)
    then show ?thesis using 3 by (auto simp: serve_mux_def)
  qed
qed

lemma tracked_problem_handler: "100 \<le> status \<Longrightarrow> status \<le> 999 \<Longrightarrow> tracked_handler (problem_handler status)"
  unfolding tracked_handler_def problem_handler_def
  by (intro allI tracked_bind tracked_problem tracked_basic) (simp_all add: status_problem_def)

lemma tracked_defaults: "tracked_handler default_not_found" "tracked_handler default_method_not_allowed"
  by (simp_all add: default_not_found_def default_method_not_allowed_def tracked_problem_handler)

lemma tracked_http_error: "100 \<le> code \<Longrightarrow> code \<le> 999 \<Longrightarrow> tracked i (http_error msg code (Rec i) a)"
  unfolding http_error_def
  by (intro tracked_seq tracked_bind tracked_header tracked_write_header tracked_write tracked_basic) simp_all

lemma tracked_strip_prefix:
  assumes "tracked_handler h"
  shows "tracked_handler (strip_prefix pre h)"
proof (rule tracked_handlerI, rule tracked_state)
  fix i a s
  note h = tracked_handlerD [OF assms, of i]
  let ?r = "req a s"
  let ?p = "trim_prefix (r_path ?r) pre"
  let ?rp = "trim_prefix (r_raw_path ?r) pre"
  have sub: "tracked i (go_bind (new_request r) (\<lambda>b. h (Rec i) b))" for r by (intro tracked_bind tracked_basic h)
  consider "pre = []"
    | "pre \<noteq> []" "length ?p < length (r_path ?r) \<and> (r_raw_path ?r = [] \<or> length ?rp < length (r_raw_path ?r))"
    | "pre \<noteq> []" "\<not> (length ?p < length (r_path ?r) \<and> (r_raw_path ?r = [] \<or> length ?rp < length (r_raw_path ?r)))"
    by blast
  then show "\<exists>n. tracked i n \<and> strip_prefix pre h (Rec i) a s = n s"
  proof cases
    case 1
    then show ?thesis by (intro tracked_at [OF h]) (simp add: strip_prefix_def)
  next
    case 2
    then show ?thesis by (intro tracked_at [OF sub]) (simp add: strip_prefix_def Let_def)
  next
    case 3
    have "tracked i (http_error ''404 page not found'' 404 (Rec i) a)" by (rule tracked_http_error) simp_all
    then show ?thesis
      by (rule tracked_at) (use 3 in \<open>simp only: strip_prefix_def go_bind_simps Let_def if_False\<close>)
  qed
qed

lemma tracked_handler_module:
  assumes "new_handler_module pre h mws = Ok m" "tracked_handler h" "\<And>mw. Some mw \<in> set mws \<Longrightarrow> observed_layer mw"
  shows "tracked_handler (md_handler m)"
  using assms by (auto simp: new_handler_module_def res_simps intro!: tracked_strip_prefix tracked_chain)

text \<open>A compiled tree: every handler registered in it under layers.\<close>

definition tracked_tree :: "wiring \<Rightarrow> bool" where
  "tracked_tree ws \<longleftrightarrow>
     (\<forall>g. (\<forall>mw. Some mw \<in> set (gr_middleware (wi_groups ws g)) \<longrightarrow> observed_layer mw) \<and>
        (\<forall>rt \<in> set (gr_routes (wi_groups ws g)). tracked_handler (ro_handler rt) \<and>
           (\<forall>mw. Some mw \<in> set (ro_middleware rt) \<longrightarrow> observed_layer mw)) \<and>
        (\<forall>h. gr_not_found (wi_groups ws g) = Some h \<longrightarrow> tracked_handler h) \<and>
        (\<forall>h. gr_method_not_allowed (wi_groups ws g) = Some h \<longrightarrow> tracked_handler h))"

lemma in_tree_layers:
  "in_tree (wi_groups ws) parent outer g g' pre ch \<Longrightarrow> tracked_tree ws \<Longrightarrow>
     (\<And>mw. Some mw \<in> set outer \<Longrightarrow> observed_layer mw) \<Longrightarrow> Some mw \<in> set ch \<Longrightarrow> observed_layer mw"
proof (induction arbitrary: mw rule: in_tree.induct)
  case root
  then show ?case unfolding tracked_tree_def set_append by blast
next
  case (child g' pre ch c)
  then show ?case unfolding tracked_tree_def set_append by blast
qed

lemma tracked_tree_routes:
  assumes "tracked_tree ws" "(p, h) \<in> tree_routes ws [] [] g"
  shows "tracked_handler h"
proof -
  from assms(2) obtain rt ch pre g' where t: "h = chain (ro_handler rt) (ch @ ro_middleware rt)"
    "in_tree (wi_groups ws) [] [] g g' pre ch" "rt \<in> set (gr_routes (wi_groups ws g'))"
    by (auto simp: tree_routes_def)
  have "observed_layer mw" if "Some mw \<in> set (ch @ ro_middleware rt)" for mw
    using that in_tree_layers [OF t(2) assms(1), of mw] t(3) assms(1) by (auto simp: tracked_tree_def)
  then show ?thesis using t assms(1) by (auto simp: tracked_tree_def intro!: tracked_chain)
qed

lemma tracked_module:
  assumes "new_module fuel reject lookup g ws = Some (Ok m, ws')" "faithful_lookup lookup" "tracked_tree ws"
  shows "tracked_handler (md_handler m)"
proof -
  obtain mux where mux: "compile_group fuel reject [] [] g [] ws = Some (Ok mux, ws')"
    and m: "md_handler m = (\<lambda>w a. serve_mux lookup w a mux (or_default (gr_not_found (wi_groups ws' g)) default_not_found)
      (or_default (gr_method_not_allowed (wi_groups ws' g)) default_method_not_allowed))"
    using assms(1) by (auto simp: new_module_def Let_def res_simps split: option.splits)
  have set_mux: "set mux = tree_routes ws [] [] g" and s: "sealing ws ws'"
    using compile_group_Ok [OF mux] by simp_all
  have "shape ws' g = shape ws g" using s by (simp add: sealing_def)
  then have same: "gr_not_found (wi_groups ws' g) = gr_not_found (wi_groups ws g)"
    "gr_method_not_allowed (wi_groups ws' g) = gr_method_not_allowed (wi_groups ws g)"
    by (metis shape_fields(5), metis shape_fields(6))
  show ?thesis
    unfolding m
  proof (rule tracked_serve_mux [OF assms(2)])
    show "tracked_handler h" if "(p, h) \<in> set mux" for p h
      using that tracked_tree_routes [OF assms(3)] by (simp add: set_mux)
  qed (use assms(3) tracked_defaults in \<open>auto simp: same or_default_def tracked_tree_def split: option.split\<close>)
qed

lemma tracked_dispatch:
  assumes "faithful_lookup lookup" "\<And>m. m \<in> set (rt_modules r) \<Longrightarrow> tracked_handler (md_handler m)"
    "\<And>p h. (p, h) \<in> set (rt_mux r) \<Longrightarrow> tracked_handler h"
    "tracked_handler (rt_not_found r)" "tracked_handler (rt_method_not_allowed r)"
  shows "tracked_handler (dispatch lookup r)"
proof (rule tracked_handlerI, rule tracked_state)
  fix i a s
  show "\<exists>n. tracked i n \<and> dispatch lookup r (Rec i) a s = n s"
  proof (cases "find_module (r_path (req a s)) (rt_modules r)")
    case None
    have "tracked i (serve_mux lookup (Rec i) a (rt_mux r) (rt_not_found r) (rt_method_not_allowed r))"
      by (rule tracked_handlerD [OF tracked_serve_mux [OF assms(1,3-5)]])
    then show ?thesis by (rule tracked_at) (simp add: dispatch_def None)
  next
    case (Some m)
    then have "tracked i (md_handler m (Rec i) a)"
      using find_module_Some [OF Some] assms(2) by (blast intro: tracked_handlerD)
    then show ?thesis by (rule tracked_at) (simp add: dispatch_def Some module_serve_def)
  qed
qed

text \<open>What a service mounts on a router.\<close>

definition tracked_router :: "router \<Rightarrow> bool" where
  "tracked_router r \<longleftrightarrow>
     (\<forall>m \<in> set (rt_modules r). tracked_handler (md_handler m)) \<and> (\<forall>(p, h) \<in> set (rt_mux r). tracked_handler h) \<and>
     tracked_handler (rt_not_found r) \<and> tracked_handler (rt_method_not_allowed r)"

text \<open>The two observing middlewares, in either order.\<close>

lemma observers_agree:
  assumes "(outer, inner) \<in> {(recoverer_serve, logger_serve), (logger_serve, recoverer_serve)}"
    "tracked_handler h" "w_sent s = None" "outer (inner h) (Base Conn) a s = (out, t)" "w_conn_err t = None"
  shows "log_agrees s out t"
proof -
  consider "outer = recoverer_serve" "inner = logger_serve" | "outer = logger_serve" "inner = recoverer_serve"
    using assms(1) by blast
  then show ?thesis
  proof cases
    case 1
    show ?thesis using assms(4) by (intro tracked_log_agrees [OF assms(2,3) _ assms(5)]) (simp only: 1)
  next
    case 2
    show ?thesis using assms(4) by (intro recoverer_layer.as_outer_observer [OF assms(2,3,5)]) (simp only: 2)
  qed
qed

text \<open>The body limit and the request id start the rest on a state where the response and the log are as before.\<close>

lemma log_agrees_start: "w_log s' = w_log s \<Longrightarrow> log_agrees s' out t \<Longrightarrow> log_agrees s out t"
  by (simp add: log_agrees_def)

lemma outer_layers_run:
  "\<exists>b s'. body_limit_serve n (request_id_serve c h) (Base Conn) a s = h (Base Conn) b s' \<and>
     w_sent s' = w_sent s \<and> w_log s' = w_log s"
proof -
  let ?s = "s\<lparr>w_reqs := (w_reqs s)(a := (w_reqs s a)\<lparr>r_body := max_bytes_reader n (r_body (w_reqs s a))\<rparr>)\<rparr>"
  have base: "writer_base (Base Conn) ?s = Conn" by (simp add: writer_base_def)
  obtain rid p where "config_id c a ?s = (Done rid, ?s\<lparr>w_rand_pos := p\<rparr>)" using config_id_run by blast
  note run = request_id_run [where inner = h, OF base this refl]
  show ?thesis unfolding body_limit_run by (intro exI conjI, rule run) simp_all
qed

lemma router_log_agrees:
  assumes "router_built reject r"
    "rt_middleware r = Some (body_limit_serve n) # Some (request_id_serve c) # Some outer # Some inner # layers"
    "(outer, inner) \<in> {(recoverer_serve, logger_serve), (logger_serve, recoverer_serve)}"
    "\<And>mw. Some mw \<in> set layers \<Longrightarrow> observed_layer mw" "tracked_router r" "faithful_lookup lookup"
    "w_sent s = None" "router_serve lookup r (Base Conn) a s = (out, t)" "w_conn_err t = None"
  shows "log_agrees s out t"
proof -
  let ?h = "chain (dispatch lookup r) layers"
  have "tracked_handler (dispatch lookup r)"
    using assms(5) by (intro tracked_dispatch [OF assms(6)]) (auto simp: tracked_router_def)
  then have h: "tracked_handler ?h" by (intro tracked_chain assms(4))
  have serve: "router_serve lookup r = body_limit_serve n (request_id_serve c (outer (inner ?h)))"
    using router_built_inv [OF assms(1)] assms(2) by (simp add: router_serve_def router_inv_def)
  obtain b s' where s': "router_serve lookup r (Base Conn) a s = outer (inner ?h) (Base Conn) b s'"
    "w_sent s' = w_sent s" "w_log s' = w_log s"
    using outer_layers_run [of n c "outer (inner ?h)" a s] unfolding serve by blast
  have "log_agrees s' out t"
    using assms(7,8) s' by (intro observers_agree [OF assms(3) h _ _ assms(9)]) simp_all
  with s'(3) show ?thesis by (rule log_agrees_start)
qed

section \<open>One correlation id\<close>

lemma logged_id:
  "request_id_from (r_ctx r) = Some rid \<Longrightarrow> rid \<noteq> [] \<Longrightarrow>
     (''request_id'', AStr rid) \<in> set (lg_attrs (request_record r st d)) \<and>
     (\<forall>lg \<in> set (cause_records ew r e). (''request_id'', AStr rid) \<in> set (lg_attrs lg))"
  by (auto simp: request_record_def append_request_id_def cause_records_def Let_def handle_attrs_def)

lemma problem_member_id:
  assumes "request_id_from (r_ctx r) = Some rid" "rid \<noteq> []" "obj_wf (p_extras p)"
  shows "map_of (json_members (marshal_problem (apply_defaults (problem_for r p)))) ''request_id'' = Some (JStr rid)"
proof -
  have "map_of (p_extras (problem_for r p)) ''request_id'' = Some (JStr rid)"
    using problem_for_extras [OF assms(3), of r "''request_id''"] assms(1,2) by (simp add: request_id_member_def)
  moreover have "obj_wf (p_extras (problem_for r p))" using assms(3) by (rule problem_for_wf)
  ultimately show ?thesis by (simp add: marshal_lookup(1))
qed

lemma conn_header_log [simp]: "conn_header (s\<lparr>w_log := l\<rparr>) = conn_header s"
  by (simp add: conn_header_def split: option.split)

text \<open>
  A handler that returns an error computed from its request, under \<open>Handle\<close>, \<open>RequestLogger\<close> and \<open>Recoverer\<close>.
\<close>

lemma failing_stack_run:
  assumes "untouched (Base Conn) s" and rid: "request_id_from (r_ctx (req a s)) = Some rid" "rid \<noteq> []"
    and p: "p = reported_problem ew (f (req a s))" "obj_wf (p_extras p)" "\<forall>kv \<in> set (p_extras p). encodable (snd kv)"
    and q: "q = apply_defaults (problem_for (req a s) p)"
    and ok: "200 \<le> p_status q" "p_status q \<le> 999" "body_allowed (p_status q)"
  shows "\<exists>t doc new. recoverer_serve (logger_serve (serve_func (\<lambda>w a. go_bind (go_read (req a)) (\<lambda>r. go_return (Some (f r)))) ew))
      (Base Conn) a s = (Done (), t) \<and>
    map_option fst (w_sent t) = Some (p_status q) \<and> w_body t = w_body s @ doc @ [CHR 0x0A] \<and>
    encode_json (marshal_problem q) = Some doc \<and>
    map_of (json_members (marshal_problem q)) ''request_id'' = Some (JStr rid) \<and>
    conn_header t = header_set ''Content-Type'' problem_media_type (w_header s) \<and>
    w_log t = w_log s @ new \<and> new \<noteq> [] \<and> (\<forall>lg \<in> set new. (''request_id'', AStr rid) \<in> set (lg_attrs lg))"
proof -
  let ?fn = "\<lambda>w a. go_bind (go_read (req a)) (\<lambda>r. go_return (Some (f r)))"
  let ?e = "f (req a s)"
  let ?i = "w_next_rec s"
  obtain s1 where w: "wrap_writer (Base Conn) s = (Done ?i, s1)"
    and s1: "s1 = s\<lparr>w_recs := (w_recs s)(?i := \<lparr>rc_inner = Conn, rc_status = 0, rc_committed = False\<rparr>), w_next_rec := Suc ?i\<rparr>"
    by (simp add: wrap_writer_def)
  have u: "untouched (Rec ?i) s1" "req a s1 = req a s" "\<not> recorder_committed ?i s1"
    using assms(1) s1 by (simp_all add: untouched_def writer_base_def req_def recorder_committed_def)
  have wi: "wrap_writer (Rec ?i) s1 = (Done ?i, s1)" by (simp add: wrap_writer_def)
  from problem_sends [OF u(1) ok p(3), of a] q u(2)
  have "sends (Rec ?i) (problem_write_for (Rec ?i) a p) (p_status q) problem_media_type (marshal_problem q) s1" by simp
  then obtain t0 doc where t0: "problem_write_for (Rec ?i) a p s1 = (Done None, t0)" "encode_json (marshal_problem q) = Some doc"
    "map_option fst (w_sent t0) = Some (p_status q)" "w_body t0 = w_body s1 @ doc @ [CHR 0x0A]"
    "conn_header t0 = header_set ''Content-Type'' problem_media_type (w_header s1)" "same_outside s1 t0"
    by (auto simp: sends_def)
  let ?t1 = "t0\<lparr>w_log := w_log s1 @ cause_records ew (req a s) ?e\<rparr>"
  have "ew_write ew (Rec ?i) a ?e s1 = (Done None, ?t1)"
    using ew_write_eq [of ew "Rec ?i" a ?e s1] t0(1) p(1) u(2) by (simp add: set_log_def)
  then have inner: "serve_func ?fn ew (Rec ?i) a s1 = (Done (), ?t1)"
    using serve_func_run [of "Rec ?i" s1 ?i s1 ?fn a, OF wi] u(2,3) by (simp add: go_simps)
  let ?lg = "request_record (req a ?t1) (logged_status ?i (Done () = Done ()) ?t1) (w_clock ?t1 - w_clock s1)"
  from logger_serve_run [where inner = "serve_func ?fn ew", OF wi inner]
  have log: "logger_serve (serve_func ?fn ew) (Rec ?i) a s1 = (Done (), add_record ?lg ?t1)" .
  have run: "recoverer_serve (logger_serve (serve_func ?fn ew)) (Base Conn) a s = (Done (), add_record ?lg ?t1)"
    using recoverer_serve_run [where inner = "logger_serve (serve_func ?fn ew)", OF w log] by simp
  have "req a ?t1 = req a s" using t0(6) u(2) by (simp add: same_outside_def req_def)
  then have ids: "\<forall>lg \<in> set (cause_records ew (req a s) ?e @ [?lg]). (''request_id'', AStr rid) \<in> set (lg_attrs lg)"
    using logged_id [OF rid] by auto
  have member: "map_of (json_members (marshal_problem q)) ''request_id'' = Some (JStr rid)"
    unfolding q by (rule problem_member_id [OF rid p(2)])
  define new where "new = cause_records ew (req a s) ?e @ [?lg]"
  define t where "t = add_record ?lg ?t1"
  have t: "w_sent t = w_sent t0" "w_body t = w_body s1 @ doc @ [CHR 0x0A]"
    "conn_header t = header_set ''Content-Type'' problem_media_type (w_header s1)" "w_log t = w_log s @ new"
    using s1 t0(4,5) by (simp_all add: t_def new_def add_record_def)
  have new: "new \<noteq> []" "\<forall>lg \<in> set new. (''request_id'', AStr rid) \<in> set (lg_attrs lg)"
    using ids by (simp_all add: new_def)
  have "w_body s1 = w_body s" "w_header s1 = w_header s" using s1 by simp_all
  then show ?thesis
    using run [folded t_def] t t0(2,3) member new by (intro exI [of _ t] exI [of _ doc] exI [of _ new]) simp
qed

end
