(* ===== verification/Transfers.thy ===== *)
theory Transfers imports Config Float64 Recorder begin

text \<open>
  The deadlines of a route that moves a large body (\<open>transfer.go\<close>): the time a body is allowed, in
  the \<open>float64\<close> arithmetic the code uses, and setting the connection's deadlines by it.
\<close>

section \<open>Durations in text\<close>

text \<open>
  \<open>time.Duration.String\<close>: the fraction is written with up to the given number of digits, less
  trailing zeros, and no point when there is none.
\<close>

definition frac_text :: "nat \<Rightarrow> nat \<Rightarrow> string" where
  "frac_text prec v =
     (let ds = show_nat (v mod 10 ^ prec);
          padded = replicate (prec - length ds) CHR ''0'' @ ds;
          kept = rev (dropWhile (\<lambda>c. c = CHR ''0'') (rev padded))
      in if kept = [] then [] else CHR ''.'' # kept)"

definition duration_text :: "int \<Rightarrow> string" where
  "duration_text d =
     (let u = nat \<bar>d\<bar>; sign = (if d < 0 then ''-'' else []) in
      if u = 0 then ''0s''
      else if u < 1000 then sign @ show_nat u @ ''ns''
      else if u < 1000000 then sign @ show_nat (u div 1000) @ frac_text 3 u @ [CHR 0xC2, CHR 0xB5, CHR ''s'']
      else if u < 1000000000 then sign @ show_nat (u div 1000000) @ frac_text 6 u @ ''ms''
      else
        let secs = u div 1000000000; mins = secs div 60; hours = mins div 60
        in sign @ (if 0 < hours then show_nat hours @ ''h'' else []) @
             (if 0 < mins then show_nat (mins mod 60) @ ''m'' else []) @
             show_nat (secs mod 60) @ frac_text 9 u @ ''s'')"

section \<open>The transfer\<close>

record transfer =
  tr_limit :: int
  tr_rate :: int
  tr_grace :: int
  tr_read :: bool
  tr_write :: bool

definition zero_transfer :: transfer where
  "zero_transfer = \<lparr>tr_limit = 0, tr_rate = 0, tr_grace = 0, tr_read = False, tr_write = False\<rparr>"

definition new_transfer :: "int \<Rightarrow> int \<Rightarrow> int \<Rightarrow> (err, transfer) res" where
  "new_transfer limit rate grace =
     (if limit < 0 \<or> rate \<le> 0 \<or> grace < 0
      then Panic (''web: NewTransfer('' @ show_int limit @ '', '' @ show_int rate @ '', '' @ duration_text grace @
             ''): limit and grace must not be negative, and rate must be positive'')
      else Ok \<lparr>tr_limit = limit, tr_rate = rate, tr_grace = grace, tr_read = True, tr_write = True\<rparr>)"

definition config_transfer :: "config \<Rightarrow> int \<Rightarrow> (err, transfer) res" where
  "config_transfer c limit =
     (if \<not> finalized c
      then Panic ''web: Config not finalized: call Finalize or FinalizeBlock before Transfer''
      else
        let rd = the (cf_read c); wt = the (cf_write c) in
        res_bind (new_transfer limit (the (cf_rate c)) (max rd wt)) (\<lambda>t.
          Ok (t\<lparr>tr_read := 0 < rd, tr_write := 0 < wt\<rparr>)))"

definition transfer_check :: "transfer \<Rightarrow> (err, unit) res" where
  "transfer_check t =
     (if tr_rate t = 0 then Panic ''web: zero Transfer: build it with Config.Transfer or NewTransfer'' else Ok ())"

definition transfer_limit :: "transfer \<Rightarrow> (err, int) res" where
  "transfer_limit t = res_bind (transfer_check t) (\<lambda>_. Ok (tr_limit t))"

text \<open>
  The sum \<open>float64(grace) + float64(size)/float64(rate)*float64(time.Second)\<close>. Go lets a compiler
  fuse the product into the sum and round once, as on arm64; \<open>fused\<close> says whether it does. The
  comparison's constant \<open>math.MaxInt64\<close> is 2^63 as a \<open>float64\<close>, and the conversion truncates.
\<close>

definition transfer_float :: "bool \<Rightarrow> transfer \<Rightarrow> int \<Rightarrow> rat" where
  "transfer_float fused t n =
     (let q = f64 (f64 (of_int n) / f64 (of_int (tr_rate t))); p = q * f64 (of_int one_second) in
      f64 (f64 (of_int (tr_grace t)) + (if fused then p else f64 p)))"

definition capped :: "transfer \<Rightarrow> int \<Rightarrow> int" where
  "capped t n = (if n < 0 \<or> tr_limit t < n then tr_limit t else n)"

definition transfer_duration :: "bool \<Rightarrow> transfer \<Rightarrow> int \<Rightarrow> (err, int) res" where
  "transfer_duration fused t n =
     res_bind (transfer_check t) (\<lambda>_.
       let d = transfer_float fused t (capped t n) in
       if 2 ^ 63 \<le> d then Ok max_int else Ok (if 0 \<le> d then \<lfloor>d\<rfloor> else \<lceil>d\<rceil>))"

section \<open>Deadlines\<close>

text \<open>No deadline (the zero time) for a saturated duration.\<close>

definition deadline :: "int \<Rightarrow> world \<Rightarrow> int option" where
  "deadline d s = (if d = max_int then None else Some (w_clock s + d))"

text \<open>
  \<open>http.ResponseController\<close> unwraps to \<open>net/http\<close>'s response, which sets the deadline or fails; a
  writer with no connection answers with an error that is \<open>http.ErrNotSupported\<close>.
\<close>

definition set_deadline :: "(world \<Rightarrow> world) \<Rightarrow> writer \<Rightarrow> err option go" where
  "set_deadline put w s =
     (case writer_base w s of
        Conn \<Rightarrow>
          (case w_deadline_err s of
             Some e \<Rightarrow> (Done (Some e), s)
           | None \<Rightarrow> (Done None, put s))
      | Miss m \<Rightarrow> (Done (Some (Wrapped ''feature not supported'' NotSupported)), s))"

definition set_read_deadline :: "writer \<Rightarrow> int option \<Rightarrow> err option go" where
  "set_read_deadline w dl = set_deadline (\<lambda>s. s\<lparr>w_read_deadline := dl\<rparr>) w"

definition set_write_deadline :: "writer \<Rightarrow> int option \<Rightarrow> err option go" where
  "set_write_deadline w dl = set_deadline (\<lambda>s. s\<lparr>w_write_deadline := dl\<rparr>) w"

text \<open>The error a deadline gives, unless it is none or \<open>http.ErrNotSupported\<close>.\<close>

definition deadline_failure :: "string \<Rightarrow> err option \<Rightarrow> err option" where
  "deadline_failure what e =
     (case e of
        None \<Rightarrow> None
      | Some e \<Rightarrow> if error_is e NotSupported then None else Some (Wrapped (what @ error_text e) e))"

definition go_res :: "(err, 'a) res \<Rightarrow> ('a \<Rightarrow> 'b go) \<Rightarrow> 'b go" where
  "go_res r f = (case r of Ok v \<Rightarrow> f v | Fail e \<Rightarrow> go_panic (PanicValue (error_text e)) | Panic m \<Rightarrow> go_panic (PanicValue m))"

definition widen_upload :: "bool \<Rightarrow> transfer \<Rightarrow> writer \<Rightarrow> nat \<Rightarrow> err option go" where
  "widen_upload fused t w a =
     go_bind (go_read (req a)) (\<lambda>r.
       go_res (transfer_duration fused t (r_length r)) (\<lambda>d.
         go_bind (go_read (deadline d)) (\<lambda>rd.
           go_bind (if tr_read t then set_read_deadline w rd else go_return None) (\<lambda>e.
             case deadline_failure ''set the read deadline: '' e of
               Some e \<Rightarrow> go_return (Some e)
             | None \<Rightarrow>
                 if tr_write t
                 then go_bind (set_write_deadline w (map_option (\<lambda>x. x + tr_grace t) rd)) (\<lambda>e.
                   go_return (deadline_failure ''set the write deadline: '' e))
                 else go_return None))))"

definition widen_download :: "bool \<Rightarrow> transfer \<Rightarrow> writer \<Rightarrow> int \<Rightarrow> err option go" where
  "widen_download fused t w n =
     go_res (transfer_duration fused t n) (\<lambda>d.
       if \<not> tr_write t then go_return None
       else
         go_bind (go_read (deadline d)) (\<lambda>dl.
           go_bind (set_write_deadline w dl) (\<lambda>e.
             go_return (deadline_failure ''set the write deadline: '' e))))"

section \<open>Accuracy of the arithmetic\<close>

text \<open>\<open>y\<close> is \<open>x\<close> up to a factor of \<open>c\<close> either way.\<close>

definition near :: "rat \<Rightarrow> rat \<Rightarrow> rat \<Rightarrow> bool" where
  "near c x y \<longleftrightarrow> x / c \<le> y \<and> y \<le> x * c"

lemma f64_pos_near:
  assumes "0 < x"
  shows "\<bar>f64_pos x - x\<bar> \<le> x / 2 ^ 53"
proof -
  let ?e = "ilog2 x - 52"
  have "f64_pos x - x = (of_int (round_even (x / 2 powi ?e)) - x / 2 powi ?e) * 2 powi ?e"
    by (simp add: f64_pos_def Let_def left_diff_distrib)
  then have "\<bar>f64_pos x - x\<bar> = \<bar>of_int (round_even (x / 2 powi ?e)) - x / 2 powi ?e\<bar> * 2 powi ?e"
    by (simp add: abs_mult)
  also have "\<dots> \<le> 1 / 2 * 2 powi ?e" by (intro mult_right_mono round_even_near) simp
  also have "\<dots> = 2 powi ilog2 x / 2 ^ 53" by (simp add: power_int_diff)
  also have "\<dots> \<le> x / 2 ^ 53" using ilog2_bounds(1) [OF assms] by (intro divide_right_mono) simp_all
  finally show ?thesis .
qed

definition ulp_factor :: rat where "ulp_factor = 1 + 1 / 2 ^ 52"

lemma f64_near: "0 \<le> x \<Longrightarrow> near ulp_factor x (f64 x)"
proof (cases "x = 0")
  case False
  assume "0 \<le> x"
  with False have x: "0 < x" by simp
  have e: "f64 x = f64_pos x" using x by (simp add: f64_def)
  have "x - x / 2 ^ 53 \<le> f64 x" "f64 x \<le> x + x / 2 ^ 53"
    using f64_pos_near [OF x] unfolding e by linarith+
  moreover have "x / ulp_factor \<le> x - x / 2 ^ 53" using x by (simp add: ulp_factor_def field_simps)
  moreover have "x + x / 2 ^ 53 \<le> x * ulp_factor" using x by (simp add: ulp_factor_def field_simps)
  ultimately show ?thesis unfolding near_def by linarith
qed (simp add: near_def)

lemma near_nonneg: "near c x y \<Longrightarrow> 1 \<le> c \<Longrightarrow> 0 \<le> x \<Longrightarrow> 0 \<le> y"
  unfolding near_def by (meson divide_nonneg_nonneg order_trans zero_le_one)

lemma near_refl: "1 \<le> c \<Longrightarrow> 0 \<le> x \<Longrightarrow> near c x x"
  by (simp add: near_def pos_divide_le_eq mult_le_cancel_left1)

lemma near_mono: "near c x y \<Longrightarrow> 1 \<le> c \<Longrightarrow> c \<le> d \<Longrightarrow> 0 \<le> x \<Longrightarrow> near d x y"
proof -
  assume a: "near c x y" "1 \<le> c" "c \<le> d" "0 \<le> x"
  have "x / d \<le> x / c" using a by (intro divide_left_mono) auto
  moreover have "x * c \<le> x * d" using a by (intro mult_left_mono)
  ultimately show ?thesis using a(1) unfolding near_def by linarith
qed

lemma near_trans:
  assumes "near c x y" "near d y z" "1 \<le> c" "1 \<le> d"
  shows "near (c * d) x z"
proof -
  have "x / (c * d) = (x / c) / d" by simp
  also have "\<dots> \<le> y / d" using assms by (intro divide_right_mono) (auto simp: near_def)
  also have "\<dots> \<le> z" using assms(2) by (simp add: near_def)
  finally have "x / (c * d) \<le> z" .
  moreover have "z \<le> y * d" using assms(2) by (simp add: near_def)
  moreover have "y * d \<le> x * c * d" using assms by (intro mult_right_mono) (auto simp: near_def)
  ultimately show ?thesis unfolding near_def by (simp add: mult.assoc)
qed

lemma near_scale: "near c x y \<Longrightarrow> 0 \<le> k \<Longrightarrow> near c (x * k) (y * k)"
proof -
  assume a: "near c x y" "0 \<le> k"
  have "x / c * k \<le> y * k" "y * k \<le> x * c * k" using a unfolding near_def by (blast intro: mult_right_mono)+
  then show ?thesis by (simp add: near_def mult_ac)
qed

lemma near_divide:
  assumes "near c x y" "near c r s" "1 \<le> c" "0 \<le> x" "0 < r"
  shows "near (c * c) (x / r) (y / s)"
proof -
  have "0 < r / c" using assms(3,5) by simp
  then have s: "0 < s" using assms(2) unfolding near_def by linarith
  have y: "0 \<le> y" using near_nonneg [OF assms(1,3,4)] .
  have "x / r / (c * c) = (x / c) / (r * c)" using assms(3) by (simp add: field_simps)
  also have "\<dots> \<le> y / (r * c)" using assms by (intro divide_right_mono) (auto simp: near_def)
  also have "\<dots> \<le> y / s" using assms s y by (intro divide_left_mono) (auto simp: near_def)
  finally have lo: "x / r / (c * c) \<le> y / s" .
  have "y / s \<le> y / (r / c)" using assms s y by (intro divide_left_mono) (auto simp: near_def)
  also have "\<dots> \<le> (x * c) / (r / c)" using assms by (intro divide_right_mono) (auto simp: near_def)
  also have "\<dots> = x / r * (c * c)" by simp
  finally show ?thesis using lo unfolding near_def by blast
qed

lemma near_add: "near c x y \<Longrightarrow> near c x' y' \<Longrightarrow> near c (x + x') (y + y')"
  by (simp add: near_def add_divide_distrib distrib_right)

lemma ulp_factor_ge1: "1 \<le> ulp_factor" "1 \<le> ulp_factor ^ k"
  by (simp_all add: ulp_factor_def)

text \<open>Five roundings lie between the arguments and the result.\<close>

lemma transfer_float_near:
  assumes "0 \<le> n" "0 < tr_rate t" "0 \<le> tr_grace t"
  shows "near (ulp_factor ^ 5) (of_int (tr_grace t) + of_int n * of_int one_second / of_int (tr_rate t))
    (transfer_float fused t n)"
proof -
  note c = ulp_factor_ge1
  let ?c = ulp_factor and ?n = "of_int n :: rat" and ?r = "of_int (tr_rate t) :: rat" and ?g = "of_int (tr_grace t) :: rat"
  let ?k = "of_int one_second :: rat"
  have k1: "f64 ?k = ?k" by (rule f64_exact) (simp add: one_second_def)
  define q where "q = f64 (f64 ?n / f64 ?r)"
  define p where "p = (if fused then q * ?k else f64 (q * ?k))"
  have nr: "0 \<le> ?n" "0 < ?r" "0 \<le> ?g" "0 \<le> ?n / ?r" using assms by simp_all
  have div: "near (?c * ?c) (?n / ?r) (f64 ?n / f64 ?r)"
    using f64_near [of ?n] f64_near [of ?r] nr c(1) by (intro near_divide) simp_all
  have "1 \<le> ?c * ?c" using c(2) [of 2] by (simp add: power2_eq_square)
  then have q: "near (?c * ?c * ?c) (?n / ?r) q"
    using near_trans [OF div f64_near] near_nonneg [OF div] nr c(1) by (simp add: q_def)
  have "near (?c ^ 3) (?n / ?r * ?k) (q * ?k)"
    using near_scale [OF q, of ?k] by (simp add: one_second_def power3_eq_cube)
  moreover have k: "0 \<le> ?n / ?r * ?k" using nr by (simp add: one_second_def)
  ultimately have p: "near (?c ^ 4) (?n / ?r * ?k) p"
    using near_trans [of "?c ^ 3" _ "q * ?k" ?c "f64 (q * ?k)"] near_mono [of "?c ^ 3" _ "q * ?k" "?c ^ 4"]
      f64_near [of "q * ?k"] near_nonneg [of "?c ^ 3" _ "q * ?k"] c(1) c(2) [of 3]
    by (auto simp: p_def power_increasing simp flip: power_Suc2)
  have g: "near (?c ^ 4) ?g (f64 ?g)"
    using near_mono [OF f64_near c(1), of ?g "?c ^ 4"] nr power_increasing [of 1 4 ?c] c(1) by simp
  have sum: "near (?c ^ 4) (?g + ?n / ?r * ?k) (f64 ?g + p)" by (rule near_add [OF g p])
  have "0 \<le> ?g + ?n / ?r * ?k" using nr k by simp
  then have "0 \<le> f64 ?g + p" by (rule near_nonneg [OF sum c(2)])
  then have "near (?c ^ 4 * ?c) (?g + ?n / ?r * ?k) (f64 (f64 ?g + p))"
    by (intro near_trans [OF sum f64_near c(2) c(1)])
  moreover have "?c ^ 4 * ?c = ?c ^ 5" by (simp add: eval_nat_numeral mult_ac)
  moreover have "?n / ?r * ?k = ?n * ?k / ?r" by simp
  moreover have "f64 (f64 ?g + p) = transfer_float fused t n" by (simp only: transfer_float_def Let_def q_def p_def k1)
  ultimately show ?thesis by simp
qed

definition tolerance :: rat where "tolerance = 1 + 1 / 2 ^ 49"

lemma ulp_factor_tolerance: "ulp_factor ^ 5 \<le> tolerance"
  by (simp add: ulp_factor_def tolerance_def power_divide)

definition exact_duration :: "transfer \<Rightarrow> int \<Rightarrow> rat" where
  "exact_duration t n = of_int (tr_grace t) + of_int (capped t n) * of_int one_second / of_int (tr_rate t)"

text \<open>What \<open>NewTransfer\<close> and \<open>Config.Transfer\<close> make.\<close>

definition wired :: "transfer \<Rightarrow> bool" where
  "wired t \<longleftrightarrow> 0 \<le> tr_limit t \<and> 0 < tr_rate t \<and> 0 \<le> tr_grace t"

lemma capped_range: "wired t \<Longrightarrow> 0 \<le> capped t n \<and> capped t n \<le> tr_limit t"
  by (simp add: capped_def wired_def)

lemma transfer_float_nonneg: "wired t \<Longrightarrow> 0 \<le> transfer_float fused t (capped t n)"
  using capped_range [of t n] unfolding transfer_float_def Let_def wired_def
  by (intro f64_nonneg add_nonneg_nonneg) (auto simp: one_second_def intro!: f64_nonneg mult_nonneg_nonneg divide_nonneg_nonneg)

lemma transfer_duration_eq:
  assumes "wired t"
  shows "transfer_duration fused t n =
    Ok (if 2 ^ 63 \<le> transfer_float fused t (capped t n) then max_int else \<lfloor>transfer_float fused t (capped t n)\<rfloor>)"
  using assms transfer_float_nonneg [OF assms, of fused n]
  by (auto simp: transfer_duration_def transfer_check_def wired_def Let_def)

lemma near_tolerance:
  assumes "wired t"
  shows "near tolerance (exact_duration t n) (transfer_float fused t (capped t n))"
proof -
  have "near (ulp_factor ^ 5) (exact_duration t n) (transfer_float fused t (capped t n))"
    using transfer_float_near [of "capped t n" t fused] capped_range [OF assms, of n] assms
    by (simp add: exact_duration_def wired_def)
  moreover have "0 \<le> exact_duration t n"
    using capped_range [OF assms, of n] assms by (auto simp: exact_duration_def wired_def one_second_def)
  ultimately show ?thesis using near_mono ulp_factor_ge1(2) ulp_factor_tolerance by blast
qed

text \<open>
  Claim C15 (bounds). \<open>Transfer.Duration\<close> is the grace plus the capped size at the rate, computed in
  floating point: it returns, within the range of a \<open>Duration\<close> and never negative; short of the
  saturated maximum it is within two parts in 10^15 and a nanosecond of the exact time, and it saturates only
  when the exact time is that close to the maximum or beyond. This holds whether or not the
  compiler fuses the multiplication into the addition.
\<close>

theorem transfer_duration_accurate:
  assumes "wired t"
  shows "\<exists>d. transfer_duration fused t n = Ok d \<and> 0 \<le> d \<and> d \<le> max_int \<and>
    (d \<noteq> max_int \<longrightarrow> exact_duration t n / tolerance - 1 < of_int d \<and> of_int d \<le> exact_duration t n * tolerance) \<and>
    (d = max_int \<longrightarrow> of_int max_int \<le> exact_duration t n * tolerance)"
proof -
  let ?x = "transfer_float fused t (capped t n)"
  have b: "exact_duration t n / tolerance \<le> ?x" "?x \<le> exact_duration t n * tolerance"
    using near_tolerance [OF assms] by (auto simp: near_def)
  have x: "0 \<le> ?x" using assms by (rule transfer_float_nonneg)
  show ?thesis
  proof (cases "2 ^ 63 \<le> ?x")
    case True
    then have "of_int max_int \<le> exact_duration t n * tolerance" using b(2) by (simp add: max_int_def)
    then show ?thesis using True by (simp add: transfer_duration_eq [OF assms] max_int_def)
  next
    case False
    then have "\<lfloor>?x\<rfloor> < 2 ^ 63" by (simp add: floor_less_iff)
    then have "\<lfloor>?x\<rfloor> \<le> max_int" by (simp add: max_int_def)
    moreover have "of_int \<lfloor>?x\<rfloor> \<le> exact_duration t n * tolerance" "exact_duration t n / tolerance - 1 < of_int \<lfloor>?x\<rfloor>"
      using b by linarith+
    moreover have "0 \<le> \<lfloor>?x\<rfloor>" using x by simp
    moreover have "transfer_duration fused t n = Ok \<lfloor>?x\<rfloor>" using False by (simp add: transfer_duration_eq [OF assms])
    ultimately show ?thesis by (intro exI [of _ "\<lfloor>?x\<rfloor>"]) (intro conjI impI, simp_all)
  qed
qed

definition example_transfer :: transfer where
  "example_transfer = \<lparr>tr_limit = 1048576, tr_rate = 65536, tr_grace = 30 * one_second, tr_read = True, tr_write = True\<rparr>"

lemma example_transfer_wired: "wired example_transfer"
  by (simp add: wired_def example_transfer_def one_second_def)

theorem transfer_duration_accurate_witness:
  "\<exists>d. transfer_duration False example_transfer 65536 = Ok d \<and> 30999000000 < d \<and> d < 31001000000"
proof -
  have e: "exact_duration example_transfer 65536 = 31000000000"
    by (simp add: exact_duration_def example_transfer_def capped_def one_second_def)
  obtain d where d: "transfer_duration False example_transfer 65536 = Ok d"
    "d \<noteq> max_int \<longrightarrow> 31000000000 / tolerance - 1 < rat_of_int d \<and> rat_of_int d \<le> 31000000000 * tolerance"
    "d = max_int \<longrightarrow> rat_of_int max_int \<le> 31000000000 * tolerance"
    using transfer_duration_accurate [OF example_transfer_wired, of False 65536] by (auto simp: e)
  have "d \<noteq> max_int" using d(3) by (auto simp: max_int_def tolerance_def)
  with d(2) have b: "31000000000 / tolerance - 1 < rat_of_int d" "rat_of_int d \<le> 31000000000 * tolerance" by auto
  have "rat_of_int 30999000000 < 31000000000 / tolerance - 1" "31000000000 * tolerance < rat_of_int 31001000000"
    by (simp_all add: tolerance_def)
  then have "rat_of_int 30999000000 < rat_of_int d" "rat_of_int d < rat_of_int 31001000000"
    using b by linarith+
  then show ?thesis using d(1) by (auto simp only: of_int_less_iff)
qed

lemma transfer_float_mono:
  assumes "0 \<le> m" "m \<le> n" "wired t"
  shows "transfer_float fused t m \<le> transfer_float fused t n"
proof -
  have r: "0 \<le> f64 (of_int (tr_rate t) :: rat)" using assms(3) by (intro f64_nonneg) (simp add: wired_def)
  have k: "0 \<le> f64 (of_int one_second :: rat)" by (intro f64_nonneg) (simp add: one_second_def)
  have "f64 (f64 (of_int m) / f64 (of_int (tr_rate t))) \<le> f64 (f64 (of_int n) / f64 (of_int (tr_rate t)))"
    using assms r by (intro f64_mono divide_right_mono) simp_all
  then have "f64 (f64 (of_int m) / f64 (of_int (tr_rate t))) * f64 (of_int one_second) \<le>
      f64 (f64 (of_int n) / f64 (of_int (tr_rate t))) * f64 (of_int one_second)"
    using k by (rule mult_right_mono)
  then show ?thesis unfolding transfer_float_def Let_def by (cases fused) (auto intro!: f64_mono add_left_mono)
qed

lemma transfer_float_grace:
  assumes "wired t" "tr_grace t < 2 ^ 53"
  shows "of_int (tr_grace t) \<le> transfer_float fused t (capped t n)"
proof -
  let ?x = "f64 (f64 (of_int (capped t n)) / f64 (of_int (tr_rate t))) * f64 (of_int one_second)"
  have g: "f64 (of_int (tr_grace t)) = of_int (tr_grace t)" using assms by (intro f64_exact) (simp add: wired_def)
  have "0 \<le> ?x"
    using capped_range [OF assms(1), of n] assms(1)
    by (intro mult_nonneg_nonneg f64_nonneg divide_nonneg_nonneg) (auto simp: wired_def one_second_def)
  then have "of_int (tr_grace t) \<le> f64 (of_int (tr_grace t)) + (if fused then ?x else f64 ?x)"
    by (simp add: g f64_nonneg)
  then have "f64 (of_int (tr_grace t)) \<le> transfer_float fused t (capped t n)"
    unfolding transfer_float_def Let_def by (rule f64_mono)
  then show ?thesis by (simp add: g)
qed

text \<open>
  Claim C28 (bounds). A larger body is never allowed less time; a negative or too large size counts as the
  limit; and, for a grace under 104 days, no body is allowed less than the grace.
\<close>

theorem transfer_duration_monotone:
  assumes "wired t" "transfer_duration fused t m = Ok d" "transfer_duration fused t n = Ok d'"
  shows "(0 \<le> m \<and> m \<le> n \<longrightarrow> d \<le> d') \<and> (n < 0 \<or> tr_limit t < n \<longrightarrow> transfer_duration fused t (tr_limit t) = Ok d') \<and>
    (tr_grace t < 2 ^ 53 \<longrightarrow> tr_grace t \<le> d)"
proof (intro conjI impI)
  let ?f = "\<lambda>k. transfer_float fused t (capped t k)"
  have d: "d = (if 2 ^ 63 \<le> ?f m then max_int else \<lfloor>?f m\<rfloor>)" "d' = (if 2 ^ 63 \<le> ?f n then max_int else \<lfloor>?f n\<rfloor>)"
    using assms by (simp_all add: transfer_duration_eq)
  show "d \<le> d'" if "0 \<le> m \<and> m \<le> n"
  proof -
    have "?f m \<le> ?f n"
      using that assms(1) by (intro transfer_float_mono) (auto simp: capped_def wired_def)
    moreover have "\<lfloor>?f m\<rfloor> \<le> max_int" if "\<not> 2 ^ 63 \<le> ?f m"
    proof -
      have "\<lfloor>?f m\<rfloor> < 2 ^ 63" using that by (simp add: floor_less_iff)
      then show ?thesis by (simp add: max_int_def)
    qed
    ultimately show ?thesis unfolding d by (auto intro: floor_mono)
  qed
  show "transfer_duration fused t (tr_limit t) = Ok d'" if "n < 0 \<or> tr_limit t < n"
  proof -
    have "capped t (tr_limit t) = capped t n" using that by (auto simp: capped_def)
    then show ?thesis using assms(1) by (simp only: transfer_duration_eq d(2))
  qed
  show "tr_grace t \<le> d" if g: "tr_grace t < 2 ^ 53"
  proof -
    have "of_int (tr_grace t) \<le> ?f m" using assms(1) g by (rule transfer_float_grace)
    then have "tr_grace t \<le> \<lfloor>?f m\<rfloor>" by (simp add: le_floor_iff)
    then show ?thesis unfolding d using g by (simp add: max_int_def)
  qed
qed

theorem transfer_duration_monotone_witness:
  "\<exists>d d'. transfer_duration True example_transfer 10 = Ok d \<and> transfer_duration True example_transfer 2000000 = Ok d' \<and>
     30 * one_second \<le> d \<and> d \<le> d' \<and> transfer_duration True example_transfer 1048576 = Ok d'"
proof -
  obtain d d' where d: "transfer_duration True example_transfer 10 = Ok d" "transfer_duration True example_transfer 2000000 = Ok d'"
    by (simp add: transfer_duration_eq [OF example_transfer_wired])
  from transfer_duration_monotone [OF example_transfer_wired d] show ?thesis
    using d by (auto simp: example_transfer_def one_second_def)
qed

section \<open>Setting the deadlines\<close>

lemma set_deadline_simps:
  "writer_base w s = Conn \<Longrightarrow> w_deadline_err s = None \<Longrightarrow> set_deadline put w s = (Done None, put s)"
  "writer_base w s = Conn \<Longrightarrow> w_deadline_err s = Some e \<Longrightarrow> set_deadline put w s = (Done (Some e), s)"
  "writer_base w s = Miss m \<Longrightarrow> set_deadline put w s = (Done (Some (Wrapped ''feature not supported'' NotSupported)), s)"
  by (simp_all add: set_deadline_def)

lemma writer_base_deadline [simp]: "writer_base w (s\<lparr>w_read_deadline := x\<rparr>) = writer_base w s"
  by (cases w) (simp_all add: writer_base_def)

text \<open>
  Claim C29 (functional). \<open>WidenUpload\<close> sets the read deadline to the transfer's duration for the declared
  length from now, and the write deadline a grace after it, so the response outlives the body; a
  disabled deadline is left alone, a saturated duration clears the enabled ones, and nothing else
  changes. \<open>WidenDownload\<close> sets the write deadline alone. On a writer without deadlines both return nil
  and change nothing.
\<close>

theorem widen_deadlines:
  assumes "wired t" "transfer_duration fused t (r_length (req a s)) = Ok d" "transfer_duration fused t n = Ok d'"
    "w_deadline_err s = None"
  shows "(writer_base w s = Conn \<longrightarrow>
      widen_upload fused t w a s = (Done None, s\<lparr>
        w_read_deadline := (if tr_read t then (if d = max_int then None else Some (w_clock s + d)) else w_read_deadline s),
        w_write_deadline := (if tr_write t then (if d = max_int then None else Some (w_clock s + d + tr_grace t))
          else w_write_deadline s)\<rparr>) \<and>
      widen_download fused t w n s = (Done None, s\<lparr>
        w_write_deadline := (if tr_write t then (if d' = max_int then None else Some (w_clock s + d')) else w_write_deadline s)\<rparr>)) \<and>
    (\<forall>m. writer_base w s = Miss m \<longrightarrow>
      widen_upload fused t w a s = (Done None, s) \<and> widen_download fused t w n s = (Done None, s))"
  using assms(2-4)
  by (auto simp: widen_upload_def widen_download_def go_res_def go_bind_def set_read_deadline_def set_write_deadline_def
      set_deadline_simps deadline_failure_def deadline_def)

theorem widen_deadlines_witness:
  "\<exists>d. widen_download False example_transfer (Base Conn) 65536 example_world =
     (Done None, example_world\<lparr>w_write_deadline := (if d = max_int then None else Some d)\<rparr>)"
proof -
  obtain d d' where d: "transfer_duration False example_transfer (r_length (req 0 example_world)) = Ok d"
    "transfer_duration False example_transfer 65536 = Ok d'"
    by (simp add: transfer_duration_eq [OF example_transfer_wired])
  from widen_deadlines [OF example_transfer_wired d, of "Base Conn"] show ?thesis
    by (auto simp: example_world_def writer_base_def example_transfer_def)
qed

text \<open>
  A configuration \<open>Finalize\<close> accepted gives a transfer for every non-negative limit,
  without a panic: at the configured rate, with the longer of the read and write timeouts as its
  grace, and setting exactly the deadlines whose timeouts are not disabled.
\<close>

theorem config_transfer_wired:
  assumes "valid_config c" "0 \<le> limit"
  shows "\<exists>t rd wt. config_transfer c limit = Ok t \<and> wired t \<and> cf_read c = Some rd \<and> cf_write c = Some wt \<and>
    tr_limit t = limit \<and> cf_rate c = Some (tr_rate t) \<and> rd \<le> tr_grace t \<and> wt \<le> tr_grace t \<and> tr_grace t \<in> {rd, wt} \<and>
    (tr_read t \<longleftrightarrow> rd \<noteq> 0) \<and> (tr_write t \<longleftrightarrow> wt \<noteq> 0)"
  using assms valid_finalized [OF assms(1)]
  by (auto simp: config_transfer_def new_transfer_def valid_config_def wired_def max_def)

theorem config_transfer_wired_witness:
  "\<exists>t. config_transfer (unset_config\<lparr>cf_port := Some 80, cf_read := Some 0, cf_read_header := Some 0,
     cf_write := Some 5, cf_idle := Some 0, cf_rate := Some 1\<rparr>) 7 = Ok t \<and> \<not> tr_read t \<and> tr_write t \<and> tr_grace t = 5"
  using config_transfer_wired [of "unset_config\<lparr>cf_port := Some 80, cf_read := Some 0, cf_read_header := Some 0,
     cf_write := Some 5, cf_idle := Some 0, cf_rate := Some 1\<rparr>" 7]
  by (auto simp: valid_config_def unset_config_def)

end
