(* ===== verification/Server.thy ===== *)
theory Server imports Config World begin

text \<open>
  The server (\<open>server.go\<close>) as a state machine: binding and serving are split, the goroutine that
  serves reports through a channel of capacity one, and the mutex makes each operation one step.
  What \<open>net\<close> and \<open>http.Server\<close> answer is an input of the steps.
\<close>

section \<open>State and operations\<close>

record http_server =
  hs_addr :: string
  hs_handler :: handler
  hs_read :: int
  hs_read_header :: int
  hs_write :: int
  hs_idle :: int
  hs_max_header :: int

text \<open>
  The goroutine \<open>Start\<close> launches: not there yet, in \<open>Serve\<close>, in its deferred \<open>close\<close>, or gone. The
  channel is its buffer and whether it is closed; \<open>sv_stopping\<close> is \<open>http.Server\<close>'s own record of a
  shutdown, and \<open>sv_cut\<close> of a \<open>Close\<close>.
\<close>

datatype goroutine = Unborn | Serving | Leaving | Gone

record server =
  sv_http :: http_server
  sv_listener :: "string option"
  sv_goroutine :: goroutine
  sv_errs :: "err list"
  sv_errs_closed :: bool
  sv_stopping :: bool
  sv_cut :: bool

definition new_server :: "config \<Rightarrow> handler \<Rightarrow> bool \<Rightarrow> (err, server) res" where
  "new_server cfg h logger =
     (if \<not> finalized cfg then Panic ''web: Config not finalized: call Finalize before NewServer''
      else if \<not> logger then Panic ''web: NewServer requires a *slog.Logger''
      else
        Ok \<lparr>sv_http = \<lparr>hs_addr = config_addr cfg, hs_handler = h, hs_read = the (cf_read cfg),
              hs_read_header = the (cf_read_header cfg), hs_write = the (cf_write cfg), hs_idle = the (cf_idle cfg),
              hs_max_header = (case cf_max_header cfg of None \<Rightarrow> 0 | Some n \<Rightarrow> n)\<rparr>,
            sv_listener = None, sv_goroutine = Unborn, sv_errs = [], sv_errs_closed = False,
            sv_stopping = False, sv_cut = False\<rparr>)"

definition server_start :: "(string \<Rightarrow> err + string) \<Rightarrow> server \<Rightarrow> err option \<times> server" where
  "server_start listen s =
     (if sv_listener s \<noteq> None then (Some (Text ''server already started''), s)
      else
        case listen (hs_addr (sv_http s)) of
          Inl e \<Rightarrow> (Some (Wrapped (''listen '' @ hs_addr (sv_http s) @ '': '' @ error_text e) e), s)
        | Inr bound \<Rightarrow> (None, s\<lparr>sv_listener := Some bound, sv_goroutine := Serving\<rparr>))"

text \<open>
  The goroutine once \<open>Serve\<close> has returned \<open>e\<close>: a failure is sent, which would block (\<open>None\<close>) on a full
  channel; then the deferred \<open>close\<close>, which would panic on a closed channel.
\<close>

definition err_server_closed :: err where "err_server_closed = Text ''http: Server closed''"

definition serve_failed :: "err option \<Rightarrow> bool" where
  "serve_failed e = (case e of None \<Rightarrow> False | Some e \<Rightarrow> \<not> error_is e err_server_closed)"

definition serve_error :: "server \<Rightarrow> err \<Rightarrow> err" where
  "serve_error s e = Wrapped (''serve '' @ the (sv_listener s) @ '': '' @ error_text e) e"

definition serve_returned :: "err option \<Rightarrow> server \<Rightarrow> server option" where
  "serve_returned e s =
     (if \<not> serve_failed e then Some (s\<lparr>sv_goroutine := Leaving\<rparr>)
      else if 1 \<le> length (sv_errs s) then None
      else Some (s\<lparr>sv_goroutine := Leaving, sv_errs := sv_errs s @ [serve_error s (the e)]\<rparr>))"

definition close_errs :: "server \<Rightarrow> (err, server) res" where
  "close_errs s =
     (if sv_errs_closed s then Panic ''close of closed channel''
      else Ok (s\<lparr>sv_errs_closed := True, sv_goroutine := Gone\<rparr>))"

definition server_addr :: "server \<Rightarrow> string" where
  "server_addr s = (case sv_listener s of Some bound \<Rightarrow> bound | None \<Rightarrow> hs_addr (sv_http s))"

text \<open>A receive on \<open>Err()\<close>: an error, the end of the channel (\<open>Some None\<close>), or nothing yet (\<open>None\<close>).\<close>

definition server_receive :: "server \<Rightarrow> err option option \<times> server" where
  "server_receive s =
     (case sv_errs s of
        e # es \<Rightarrow> (Some (Some e), s\<lparr>sv_errs := es\<rparr>)
      | [] \<Rightarrow> (if sv_errs_closed s then Some None else None, s))"

text \<open>\<open>result\<close> is what \<open>http.Server.Shutdown\<close> returns, \<open>ended\<close> what \<open>ctx.Err()\<close> is then.\<close>

definition server_shutdown :: "err option \<Rightarrow> err option \<Rightarrow> server \<Rightarrow> err option \<times> server" where
  "server_shutdown result ended s =
     (if sv_listener s = None then (None, s)
      else
        let s = s\<lparr>sv_stopping := True\<rparr>
        in if (case (result, ended) of (Some e, Some c) \<Rightarrow> error_is e c | _ \<Rightarrow> False)
           then (result, s\<lparr>sv_cut := True\<rparr>) else (result, s))"

section \<open>The step relation\<close>

text \<open>
  Any number of callers start, stop, and receive, in any order, while the goroutine runs. \<open>Serve\<close>
  returns \<open>http.ErrServerClosed\<close> only once the server is stopping; otherwise anything. A run also
  carries the errors delivered so far.
\<close>

inductive server_step :: "err list \<times> server \<Rightarrow> err list \<times> server \<Rightarrow> bool" where
  starting: "server_start listen s = (r, t) \<Longrightarrow> server_step (ds, s) (ds, t)"
| serve_ends: "sv_goroutine s = Serving \<Longrightarrow> e \<noteq> None \<Longrightarrow> (\<not> serve_failed e \<longrightarrow> sv_stopping s) \<Longrightarrow>
    serve_returned e s = Some t \<Longrightarrow> server_step (ds, s) (ds, t)"
| closing: "sv_goroutine s = Leaving \<Longrightarrow> close_errs s = Ok t \<Longrightarrow> server_step (ds, s) (ds, t)"
| receiving: "server_receive s = (Some (Some e), t) \<Longrightarrow> server_step (ds, s) (ds @ [e], t)"
| stopping: "server_shutdown result ended s = (r, t) \<Longrightarrow> server_step (ds, s) (ds, t)"

inductive_cases server_stepE: "server_step (ds, s) (ds', t)"

inductive server_reachable :: "err list \<Rightarrow> server \<Rightarrow> bool" where
  created: "new_server cfg h True = Ok s \<Longrightarrow> server_reachable [] s"
| stepped: "server_reachable ds s \<Longrightarrow> server_step (ds, s) (ds', t) \<Longrightarrow> server_reachable ds' t"

definition server_inv :: "err list \<Rightarrow> server \<Rightarrow> bool" where
  "server_inv ds s \<longleftrightarrow>
     (sv_goroutine s = Unborn \<longleftrightarrow> sv_listener s = None) \<and>
     (sv_errs_closed s \<longleftrightarrow> sv_goroutine s = Gone) \<and>
     (sv_goroutine s \<in> {Unborn, Serving} \<longrightarrow> ds = [] \<and> sv_errs s = []) \<and>
     length ds + length (sv_errs s) \<le> 1 \<and>
     (\<forall>e \<in> set ds \<union> set (sv_errs s). \<not> error_is e err_server_closed) \<and>
     (sv_stopping s \<longrightarrow> sv_listener s \<noteq> None)"

lemma new_server_inv: "new_server cfg h logger = Ok s \<Longrightarrow> server_inv [] s"
  by (auto simp: new_server_def server_inv_def split: if_splits)

lemma serve_error_reported: "serve_failed (Some e) \<Longrightarrow> \<not> error_is (serve_error s e) err_server_closed"
  by (simp add: serve_failed_def serve_error_def)

lemma server_step_inv_pair: "server_step p q \<Longrightarrow> server_inv (fst p) (snd p) \<Longrightarrow> server_inv (fst q) (snd q)"
proof (induction rule: server_step.induct)
  case (starting listen s r t ds)
  then show ?case by (auto simp: server_start_def server_inv_def split: if_splits sum.splits)
next
  case (serve_ends s e t ds)
  then show ?case
    using serve_error_reported [of "the e" s] by (auto simp: serve_returned_def server_inv_def split: if_splits)
next
  case (closing s t ds)
  then show ?case by (auto simp: close_errs_def server_inv_def split: if_splits)
next
  case (receiving s e t ds)
  then show ?case by (auto simp: server_receive_def server_inv_def split: list.splits if_splits)
next
  case (stopping result ended s r t ds)
  then show ?case by (auto simp: server_shutdown_def server_inv_def Let_def split: if_splits)
qed

lemma server_step_inv: "server_step (ds, s) (ds', t) \<Longrightarrow> server_inv ds s \<Longrightarrow> server_inv ds' t"
  using server_step_inv_pair [of "(ds, s)" "(ds', t)"] by simp

lemma server_reachable_inv: "server_reachable ds s \<Longrightarrow> server_inv ds s"
  by (induction rule: server_reachable.induct) (auto intro: new_server_inv server_step_inv)

text \<open>An example: a server on port 80.\<close>

definition example_config :: config where
  "example_config = unset_config\<lparr>cf_host := ''h'', cf_port := Some 80, cf_read := Some 0, cf_read_header := Some 0,
     cf_write := Some 5, cf_idle := Some 0, cf_rate := Some 1\<rparr>"

definition silent :: handler where "silent w a = go_return ()"

definition example_server :: server where
  "example_server = (case new_server example_config silent True of Ok s \<Rightarrow> s)"

lemma example_server_new: "new_server example_config silent True = Ok example_server"
  by (simp add: example_server_def new_server_def example_config_def finalized_def)

definition started_server :: server where
  "started_server = snd (server_start (\<lambda>a. Inr ''h:80'') example_server)"

lemma started_server_reachable: "server_reachable [] started_server"
proof (rule server_reachable.stepped [OF server_reachable.created [OF example_server_new]])
  show "server_step ([], example_server) ([], started_server)"
    by (rule server_step.starting [of "\<lambda>a. Inr ''h:80''" _ "fst (server_start (\<lambda>a. Inr ''h:80'') example_server)"])
      (simp add: started_server_def)
qed

lemma example_server_view: "sv_listener example_server = None"
  by (simp add: example_server_def new_server_def example_config_def finalized_def)

lemma started_server_view: "sv_listener started_server = Some ''h:80''" "sv_goroutine started_server = Serving"
  "sv_errs started_server = []" "sv_errs_closed started_server = False"
  by (simp_all add: started_server_def server_start_def example_server_def new_server_def example_config_def finalized_def)

section \<open>Properties\<close>

text \<open>
  Claim C2 (invariant). In every reachable state, whatever the callers and the network do: at most one
  error is ever sent on the channel, and never \<open>http.ErrServerClosed\<close>; the channel is closed exactly
  when the serving goroutine is gone, so no receive ends early and it is never closed twice; and the
  goroutine runs only on a bound listener.
\<close>

theorem server_reports_once:
  assumes "server_reachable ds s"
  shows "length ds + length (sv_errs s) \<le> 1 \<and>
    (\<forall>e. e \<in> set ds \<or> e \<in> set (sv_errs s) \<longrightarrow> \<not> error_is e err_server_closed) \<and>
    (fst (server_receive s) = Some None \<longleftrightarrow> sv_goroutine s = Gone \<and> sv_errs s = []) \<and>
    (sv_goroutine s = Leaving \<longrightarrow> is_ok (close_errs s)) \<and>
    (sv_goroutine s \<noteq> Unborn \<longleftrightarrow> sv_listener s \<noteq> None)"
  using server_reachable_inv [OF assms]
  by (auto simp: server_inv_def server_receive_def close_errs_def split: list.split)

theorem server_reports_once_witness:
  "\<exists>s. server_reachable [] s \<and> sv_goroutine s = Serving \<and> sv_listener s \<noteq> None"
  using server_reports_once [OF started_server_reachable] started_server_reachable started_server_view by auto

text \<open>
  Claim C9 (liveness). The goroutine never hangs and the channel always ends: whatever \<open>Serve\<close> returns,
  sending it does not block and closing does not panic, and the consumer then reads exactly the
  failure, if there was one, and the end of the channel. The steps are ones the server can take.
\<close>

theorem server_serve_terminates:
  assumes "server_reachable ds s" "sv_goroutine s = Serving"
  shows "\<exists>t u. serve_returned e s = Some t \<and> close_errs t = Ok u \<and> sv_goroutine u = Gone \<and>
    (if serve_failed e
     then (\<exists>v. server_receive u = (Some (Some (serve_error s (the e))), v) \<and> fst (server_receive v) = Some None)
     else fst (server_receive u) = Some None) \<and>
    (e \<noteq> None \<and> (serve_failed e \<or> sv_stopping s) \<longrightarrow> server_step\<^sup>*\<^sup>* (ds, s) (ds, u))"
proof -
  have inv: "sv_errs s = []" "\<not> sv_errs_closed s"
    using server_reachable_inv [OF assms(1)] assms(2) by (auto simp: server_inv_def)
  let ?t = "if serve_failed e then s\<lparr>sv_goroutine := Leaving, sv_errs := [serve_error s (the e)]\<rparr> else s\<lparr>sv_goroutine := Leaving\<rparr>"
  let ?u = "?t\<lparr>sv_errs_closed := True, sv_goroutine := Gone\<rparr>"
  have t: "serve_returned e s = Some ?t" using inv by (simp add: serve_returned_def)
  have u: "close_errs ?t = Ok ?u" using inv by (simp add: close_errs_def)
  have "server_step\<^sup>*\<^sup>* (ds, s) (ds, ?u)" if "e \<noteq> None" "serve_failed e \<or> sv_stopping s"
  proof -
    have "server_step (ds, s) (ds, ?t)" using that t assms(2) by (intro server_step.serve_ends [of s e]) auto
    moreover have "server_step (ds, ?t) (ds, ?u)" using u by (intro server_step.closing) simp_all
    ultimately show ?thesis by (rule converse_rtranclp_into_rtranclp [OF _ r_into_rtranclp])
  qed
  then show ?thesis using t u inv
    by (intro exI [of _ ?t] exI [of _ ?u]) (simp add: server_receive_def)
qed

theorem server_serve_terminates_witness:
  "\<exists>u. server_step\<^sup>*\<^sup>* ([], started_server) ([], u) \<and> sv_goroutine u = Gone \<and>
     fst (server_receive u) = Some (Some (Wrapped ''serve h:80: EOF'' EOF))"
proof -
  have f: "serve_failed (Some EOF)" by (simp add: serve_failed_def err_server_closed_def)
  show ?thesis
    using server_serve_terminates [OF started_server_reachable started_server_view(2), of "Some EOF"] f
    by (auto simp: serve_error_def started_server_view)
qed

text \<open>
  Starting: a failed bind is the returned error and leaves the server as it was,
  so it can be started again; a successful one is reported by \<open>Addr\<close>; after it every \<open>Start\<close> fails and changes nothing. \<open>Shutdown\<close> before
  a successful \<open>Start\<close> is a no-op; after one it stops the server, and cuts the tracked connections
  exactly when the error is the context's.
\<close>

theorem server_start_shutdown:
  "(sv_listener s = None \<longrightarrow>
      (\<forall>listen e. listen (hs_addr (sv_http s)) = Inl e \<longrightarrow>
         (\<exists>m. server_start listen s = (Some (Wrapped m e), s))) \<and>
      (\<forall>listen a. listen (hs_addr (sv_http s)) = Inr a \<longrightarrow>
         (\<exists>t. server_start listen s = (None, t) \<and> server_addr t = a \<and> sv_goroutine t = Serving \<and>
            (\<forall>listen'. \<exists>e. server_start listen' t = (Some e, t)))) \<and>
      server_shutdown result ended s = (None, s)) \<and>
    (sv_listener s \<noteq> None \<longrightarrow>
      (\<exists>t. server_shutdown result ended s = (result, t) \<and> sv_stopping t \<and>
         (sv_cut t \<longleftrightarrow> sv_cut s \<or> (\<exists>e c. result = Some e \<and> ended = Some c \<and> error_is e c)) \<and>
         sv_errs t = sv_errs s \<and> sv_errs_closed t = sv_errs_closed s))"
  by (auto simp: server_start_def server_shutdown_def server_addr_def Let_def split: option.split)

theorem server_start_shutdown_witness:
  "server_shutdown None None example_server = (None, example_server) \<and>
   (\<exists>t. server_shutdown (Some Canceled) (Some Canceled) started_server = (Some Canceled, t) \<and> sv_cut t)"
proof -
  show ?thesis
    using server_start_shutdown [of example_server None None]
      server_start_shutdown [of started_server "Some Canceled" "Some Canceled"] started_server_view(1) example_server_view
    by auto
qed

section \<open>The lifecycle\<close>

text \<open>What a caller can tell of a server, as an abstract machine: ready, running at an address, ended.\<close>

datatype phase = Ready | Running string | Ended

inductive life_step :: "phase \<Rightarrow> phase \<Rightarrow> bool" where
  starts: "life_step Ready (Running a)"
| ends: "life_step (Running a) Ended"

definition phase_of :: "server \<Rightarrow> phase" where
  "phase_of s = (case sv_listener s of None \<Rightarrow> Ready | Some a \<Rightarrow> if sv_errs_closed s then Ended else Running a)"

lemma phase_step:
  "server_step p q \<Longrightarrow> server_inv (fst p) (snd p) \<Longrightarrow>
     phase_of (snd q) = phase_of (snd p) \<or> life_step (phase_of (snd p)) (phase_of (snd q))"
proof (induction rule: server_step.induct)
  case (starting listen s r t ds)
  then show ?case
    by (auto simp: server_start_def server_inv_def phase_of_def intro: life_step.intros split: if_splits sum.splits)
next
  case (serve_ends s e t ds)
  then have "sv_listener t = sv_listener s \<and> sv_errs_closed t = sv_errs_closed s"
    by (auto simp: serve_returned_def split: if_splits)
  then have "phase_of t = phase_of s" by (simp only: phase_of_def)
  then show ?case by simp
next
  case (closing s t ds)
  then show ?case
    by (auto simp: close_errs_def server_inv_def phase_of_def intro: life_step.intros split: if_splits option.split)
next
  case (receiving s e t ds)
  then have "sv_listener t = sv_listener s \<and> sv_errs_closed t = sv_errs_closed s"
    by (auto simp: server_receive_def split: list.splits if_splits)
  then have "phase_of t = phase_of s" by (simp only: phase_of_def)
  then show ?case by simp
next
  case (stopping result ended s r t ds)
  then have "sv_listener t = sv_listener s \<and> sv_errs_closed t = sv_errs_closed s"
    by (auto simp: server_shutdown_def Let_def split: if_splits)
  then have "phase_of t = phase_of s" by (simp only: phase_of_def)
  then show ?case by simp
qed

text \<open>
  Claim C8 (refinement). The server implements the three-phase lifecycle: every step of it, in any
  reachable state, is a step of the abstract machine or leaves the phase as it is. So it never
  runs again once it has ended, and its address never changes while it runs.
\<close>

theorem server_refines_lifecycle:
  assumes "server_reachable ds s" "server_step (ds, s) (ds', t)"
  shows "phase_of t = phase_of s \<or> life_step (phase_of s) (phase_of t)"
  using phase_step [OF assms(2)] server_reachable_inv [OF assms(1)] by simp

theorem server_refines_lifecycle_witness:
  "life_step (phase_of example_server) (phase_of started_server)"
proof -
  have step: "server_step ([], example_server) ([], started_server)"
    by (rule server_step.starting [of "\<lambda>a. Inr ''h:80''" _ "fst (server_start (\<lambda>a. Inr ''h:80'') example_server)"])
      (simp add: started_server_def)
  have "phase_of started_server \<noteq> phase_of example_server"
    by (simp add: phase_of_def started_server_view example_server_view)
  then show ?thesis
    using server_refines_lifecycle [OF server_reachable.created [OF example_server_new] step] by simp
qed

end
