(* ===== verification/Spec2Isabelle.thy ===== *)
theory Spec2Isabelle imports Webtest Stack Transfers Server begin

text \<open>
  A verification development for \<open>go-web-sdk\<close>, an HTTP layer over \<open>net/http\<close>: routing, RFC 9457
  problem responses, request and response helpers, middleware, configuration and the server's
  lifecycle. Definitions are translated from the Go sources; each theory opens with what it holds.

  \<^bold>\<open>The program's parts.\<close> A \<open>Server\<close> serves one handler, usually a \<open>Router\<close>. The router
  dispatches to \<open>Module\<close>s by longest prefix; a module is a compiled tree of \<open>Group\<close>s over a
  \<open>ServeMux\<close>, or a raw handler. Handlers are wrapped in middleware by \<open>Chain\<close>. A handler that returns an
  error is adapted by \<open>Handle\<close>, which lets an \<open>ErrorWriter\<close> map the error to a \<open>Problem\<close> and write it.
  Every layer that must know what was sent shares one \<open>Recorder\<close> per request.

  \<^bold>\<open>State and effects\<close> (\<open>World\<close>). A handler is a function from a state to an outcome (a normal return
  or a panic) and a new state. The state holds \<open>net/http\<close>'s response (header map, informational
  responses, the status sent with its header, the body, the connection's error and deadlines), the
  recorders, miss recorders and requests at their addresses, since Go shares them by pointer, the
  log, the clock, random bytes, and the opening and closing of objects. Pure functions return a
  value, an error, or a panic (\<open>res\<close> in \<open>Prelude\<close>).

  \<^bold>\<open>Theories and sources.\<close>
  \<^item> \<open>Prelude\<close>, \<open>GoStrings\<close>, \<open>SortFunc\<close>, \<open>Float64\<close>, \<open>Utf8\<close>, \<open>Json\<close>: shared vocabulary and what the
    sources use of Go's library: strings and decimal integers, a stable sort, IEEE binary64 rounding, UTF-8, and
    JSON values with the encoder's text.
  \<^item> \<open>Query\<close> (\<open>query.go\<close>): \<open>ParseQuery\<close>; bounds of page and size, filters complete and in order, rejections.
  \<^item> \<open>Problem\<close>, \<open>Errors\<close>, \<open>Write_Problem\<close> (\<open>problem.go\<close>, \<open>errors.go\<close>, \<open>requestid.go\<close>): the document and its
    round trip; error values as trees; writing a problem for a request. The locales \<open>response_writer\<close>
    and \<open>document_writer\<close> state what writing a document needs of a writer, and are interpreted
    on the model's writers.
  \<^item> \<open>Recorder\<close> (\<open>recorder.go\<close>): transparency, and the invariant that it reports what was sent, over a step relation.
  \<^item> \<open>Request\<close>, \<open>Response\<close> (\<open>request.go\<close>, \<open>response.go\<close>): preconditions, JSON bodies, uploads; attachments,
    conditional requests and proxied objects.
  \<^item> \<open>Error_Writer\<close>, \<open>Handler\<close> (\<open>errorwriter.go\<close>, \<open>handler.go\<close>): which problem an error becomes, what stays off
    the wire, what is logged, and that a request gets one response.
  \<^item> \<open>Mux\<close>, \<open>Router\<close>, \<open>Group\<close> (\<open>middleware.go\<close>, \<open>miss.go\<close>, \<open>router.go\<close>, \<open>module.go\<close>, \<open>group.go\<close>): chains, misses as
    problems, longest-prefix dispatch whatever the mounting order, compilation of a group tree.
  \<^item> \<open>Health\<close> (\<open>health.go\<close>): the probes, on any \<open>mounter\<close>, a locale interpreted on the mux and the router.
  \<^item> \<open>Observing\<close> (\<open>middleware/logger.go\<close>, \<open>recoverer.go\<close>): the log tells the status the client gets, panics included.
  \<^item> \<open>Layers\<close>, \<open>Request_Id\<close> (\<open>middleware/bodylimit.go\<close>, \<open>timeout.go\<close>, \<open>maybe.go\<close>, \<open>headers.go\<close>, \<open>contenttype.go\<close>,
    \<open>requestid.go\<close>): what each layer hands to the next.
  \<^item> \<open>Config\<close>, \<open>Transfers\<close>, \<open>Server\<close> (\<open>config.go\<close>, \<open>transfer.go\<close>, \<open>server.go\<close>): precedence of environment, files and
    defaults; deadlines in floating point with their error bound; the lifecycle as a step relation
    that refines a three-phase machine.
  \<^item> \<open>Rate_Limit\<close> (\<open>middleware/rate-limit\<close>), \<open>Webtest\<close> (\<open>webtest\<close>): the limit's configuration, key and answers; the
    test client, which reads back the problems the server writes.

  \<^item> \<open>Stack\<close> and this theory: the composition. The locale \<open>observed_layer\<close> states what the logger and the
    recoverer need of a middleware (around a handler whose effects a recorder follows, it is one again);
    every middleware interprets it, and the mux, modules, compiled groups and adapted handlers are shown
    to be such handlers. The two properties here follow for whole routers: the logged status is the status
    sent, and one correlation id reaches header, document and log.

  \<^bold>\<open>Parameters.\<close> Code outside the repository, or of the standard library but with no bearing on the properties, is
  an argument of the definitions that use it: what \<open>ServeMux\<close> matches and which patterns it refuses,
  the UUID codec, the JSON decoder, the media type parser, HTTP dates, \<open>go-core\<close>'s environment overrides
  and readiness checks, \<open>httprate\<close>, the test client's transport, and the results of \<open>Listen\<close>, \<open>Serve\<close> and \<open>http.Server.Shutdown\<close>.
  A theorem that relies on such code states what it relies on as a hypothesis.

  \<^bold>\<open>Fuel and bounds.\<close> Groups live at addresses and may in principle form a cycle, on which the code
  does not return; \<open>compile_group\<close> takes fuel, and \<open>compile_terminates\<close> shows that a depth bound of the tree is
  enough. Go's \<open>int\<close> is taken as 64 bits wide (\<open>int64\<close>), with saturation and range checks where the
  code has them. \<open>transfer_float\<close> covers both roundings the Go language allows, with and without a
  fused multiply-add.

  \<^bold>\<open>Not modelled.\<close> The helper that runs a handler on \<open>httptest\<close>'s recorder, which is another
  response writer than \<open>net/http\<close>'s. A nil handler, which \<open>ServeMux\<close> refuses at registration. \<open>MaxBytesReader\<close>'s request to close the connection, the level filtering of a
  log handler, the text of encoding errors, and stack traces are left out or opaque. Requests are
  served one at a time; concurrency is modelled for the server's lifecycle, where the mutex makes
  each operation a step. Group prefixes are those \<open>NewGroup\<close> accepts, or any string where a lemma says so.
\<close>

section \<open>Across the stack\<close>

text \<open>
  Claim C3 (safety). With the documented chain on a router, \<open>BodyLimit\<close>, \<open>RequestID\<close>, then \<open>RequestLogger\<close> and
  \<open>Recoverer\<close> in either order, the log and the wire agree on every request: after it there is a new
  request record, and the status in it is the one the client got, whatever further layers, modules and
  handlers are beneath and however they end. Beneath may be anything that uses the response through
  the writer it is given, with three-digit status codes and no copy from an empty source; every middleware
  of the repository qualifies, and so do compiled modules, the probes and adapted handlers whose errors map
  to such codes. The hypotheses: \<open>ServeMux\<close> serves what was registered, the response is fresh and
  the client's connection still works at the end.
\<close>

theorem stack_log_agrees:
  assumes "router_built reject r"
    "rt_middleware r = Some (body_limit_serve n) # Some (request_id_serve c) # Some outer # Some inner # layers"
    "(outer, inner) \<in> {(recoverer_serve, logger_serve), (logger_serve, recoverer_serve)}"
    "\<And>mw. Some mw \<in> set layers \<Longrightarrow> observed_layer mw" "tracked_router r" "faithful_lookup lookup"
    "w_sent s = None" "router_serve lookup r (Base Conn) a s = (out, t)" "w_conn_err t = None"
  shows "\<exists>prior lg rest st. w_log t = prior @ lg # rest \<and> prefix (w_log s) prior \<and> lg_message lg = ''request'' \<and>
    (''http.response.status_code'', AInt st) \<in> set (lg_attrs lg) \<and>
    (case w_sent t of Some (sent, _) \<Rightarrow> st = sent | None \<Rightarrow> st = (if out = Done () then 200 else 500))"
  using router_log_agrees [OF assms] by (simp only: log_agrees_def)

text \<open>A router with those middlewares and a further limit over one route.\<close>

definition example_stack :: router where
  "example_stack =
     router_use [Some (body_limit_serve 1024), Some (request_id_serve (configure [])), Some logger_serve, Some recoverer_serve,
         Some (body_limit_serve 64)]
       (new_router\<lparr>rt_mux := [(''GET /items'', answering 204)]\<rparr>)"

definition first_route :: lookup where
  "first_route mux r = (case mux of (p, h) # _ \<Rightarrow> Matched p h [] | [] \<Rightarrow> Missed (\<lambda>_ _. go_return ()))"

lemma example_stack_built: "router_built (\<lambda>_ _. False) example_stack"
proof -
  have "router_handle (\<lambda>_ _. False) ''GET /items'' (answering 204) new_router =
      Ok (new_router\<lparr>rt_mux := [(''GET /items'', answering 204)]\<rparr>)"
    by (simp add: router_handle_def mux_handle_def new_router_def)
  then show ?thesis unfolding example_stack_def by (intro router_built.use router_built.register [OF router_built.new])
qed

lemma tracked_answering: "tracked_handler (answering 204)"
  by (simp add: tracked_handler_def answering_def tracked_write_header)

lemma example_stack_tracked: "tracked_router example_stack"
  by (simp add: example_stack_def router_use_def Let_def tracked_router_def new_router_def tracked_defaults tracked_answering)

lemma first_route_faithful: "faithful_lookup first_route"
  by (auto simp: faithful_lookup_def first_route_def tracked_handler_def tracked_basic split: list.split)

theorem stack_log_agrees_witness:
  "\<exists>t lg. router_serve first_route example_stack (Base Conn) 0 example_world = (Done (), t) \<and> lg \<in> set (w_log t) \<and>
     (''http.response.status_code'', AInt 204) \<in> set (lg_attrs lg)"
proof -
  obtain out t where run: "router_serve first_route example_stack (Base Conn) 0 example_world = (out, t)" by fastforce
  have serve: "router_serve first_route example_stack =
      body_limit_serve 1024 (request_id_serve (configure []) (logger_serve (recoverer_serve
        (body_limit_serve 64 (dispatch first_route example_stack)))))"
    by (simp add: router_serve_def example_stack_def router_use_def new_router_def Let_def)
  have bottom: "dispatch first_route example_stack w b s' =
      go_seq (set_request b (\<lambda>r. r\<lparr>r_pattern := ''GET /items'', r_values := []\<rparr>)) (answering 204 w b) s'"
    if "r_uri (req b s') \<noteq> ''*''" for w b s'
    using that by (simp add: dispatch_def example_stack_def router_use_def new_router_def Let_def serve_mux_def first_route_def)
  have fin: "out = Done ()" "w_conn_err t = None" "map_option fst (w_sent t) = Some 204"
    using run unfolding serve
    by (auto simp: body_limit_run request_id_serve_def config_id_def configure_def generate_id_eq go_bind_def go_seq_def new_request_def
       logger_serve_def recoverer_serve_def wrap_writer_def bottom req_def writer_header_def writer_base_def add_record_def
       answering_def recorder_operations conn_write_header_def final_code_def set_request_def writer_write_header_def
      example_world_def example_request_def)
  have mws: "rt_middleware example_stack =
      Some (body_limit_serve 1024) # Some (request_id_serve (configure [])) # Some logger_serve # Some recoverer_serve #
      [Some (body_limit_serve 64)]"
    by (simp add: example_stack_def router_use_def new_router_def Let_def)
  have layers: "observed_layer mw" if "Some mw \<in> set [Some (body_limit_serve 64)]" for mw
    using that body_limit_layer.observed_layer_axioms by simp
  have sent: "w_sent example_world = None" by (simp add: example_world_def)
  from stack_log_agrees [OF example_stack_built mws _ layers example_stack_tracked first_route_faithful sent run fin(2)]
  obtain prior lg rest st where "w_log t = prior @ lg # rest"
    "(''http.response.status_code'', AInt st) \<in> set (lg_attrs lg)"
    "case w_sent t of Some (sent, _) \<Rightarrow> st = sent | None \<Rightarrow> st = (if out = Done () then 200 else 500)"
    by auto
  then show ?thesis using run fin by (auto split: option.splits)
qed



end
